theory Spec2Isabelle
  imports Complex_Main
begin

section \<open>Meowtivator: the recurrence engine, the fairness calculator and their helpers\<close>

text \<open>
  A shallow embedding of \<^verbatim>\<open>src/utils/questHelpers.js\<close> and of the pure helpers of
  \<^verbatim>\<open>src/components/QuestManager.jsx\<close>.
\<close>

subsection \<open>Numbers\<close>

text \<open>
  The numbers the program counts with (milliseconds, seconds, XP) are modelled as
  integers. The source computes with IEEE doubles, and double arithmetic is integer
  arithmetic as long as the values are safe integers, below \<open>2^53\<close> in magnitude. Where a
  value would leave that range the model does not follow the doubles: it stops with
  \<open>Unmodelled\<close>. The other way a computation stops is a \<^verbatim>\<open>TypeError\<close> thrown by the
  runtime.
\<close>

datatype jserror = TypeError | Unmodelled

definition MAX_SAFE_INTEGER :: int where
  "MAX_SAFE_INTEGER = 9007199254740991"

definition safe_integer :: "int \<Rightarrow> bool" where
  "safe_integer n = (\<bar>n\<bar> \<le> MAX_SAFE_INTEGER)"

text \<open>\<^verbatim>\<open>a + b\<close> and \<^verbatim>\<open>a - b\<close>: a double sum or difference is correctly rounded, so it is
  the exact one when that is a safe integer.\<close>

definition num_plus :: "int \<Rightarrow> int \<Rightarrow> jserror + int" where
  "num_plus a b = (if safe_integer (a + b) then Inr (a + b) else Inl Unmodelled)"



text \<open>\<^verbatim>\<open>Math.floor(a / d)\<close> for a positive integer \<open>d\<close>: on a safe integer \<open>a\<close> the
  double quotient is off by less than \<open>1/d\<close>, so it does not reach the next integer and
  the result is the floor division.\<close>

definition floor_div :: "int \<Rightarrow> int \<Rightarrow> jserror + int" where
  "floor_div a d = (if safe_integer a then Inr (a div d) else Inl Unmodelled)"

subsection \<open>Numbers as text\<close>

text \<open>The decimal digits of an integer, with a leading minus sign for a negative one.\<close>

definition digit_char :: "nat \<Rightarrow> char" where
  "digit_char n = ''0123456789'' ! (n mod 10)"

fun nat_digits :: "nat \<Rightarrow> string" where
  "nat_digits n = (if n < 10 then [digit_char n] else nat_digits (n div 10) @ [digit_char (n mod 10)])"

declare nat_digits.simps [simp del]

definition decimal :: "int \<Rightarrow> string" where
  "decimal i = (if i < 0 then CHR ''-'' # nat_digits (nat (- i)) else nat_digits (nat i))"

text \<open>\<^verbatim>\<open>Number.prototype.toString\<close> on an integral value: a safe integer is printed with its
  decimal digits. Larger values, which JavaScript prints with the shortest digits that
  read back as the same double and from \<open>10^21\<close> in exponent notation, are not modelled.\<close>

definition Number_toString :: "int \<Rightarrow> jserror + string" where
  "Number_toString i = (if safe_integer i then Inr (decimal i) else Inl Unmodelled)"

text \<open>\<^verbatim>\<open>String.prototype.padStart(targetLength, padString)\<close> with a one-character pad.\<close>

definition padStart :: "string \<Rightarrow> nat \<Rightarrow> char \<Rightarrow> string" where
  "padStart s targetLength c = replicate (targetLength - length s) c @ s"

subsection \<open>\<^verbatim>\<open>formatMs\<close> (questHelpers.js, lines 1--9)\<close>

text \<open>The argument is \<open>None\<close> when the caller passes nothing (\<^verbatim>\<open>undefined\<close>): the default
  parameter value \<open>0\<close> applies. On the non-negative \<open>totalSeconds\<close> JavaScript's remainder
  \<^verbatim>\<open>%\<close> is \<open>mod\<close>.\<close>

definition formatMs :: "int option \<Rightarrow> jserror + string" where
  "formatMs ms_arg =
     (let ms = (case ms_arg of None \<Rightarrow> 0 | Some m \<Rightarrow> m)
      in case floor_div ms 1000 of Inl err \<Rightarrow> Inl err | Inr q \<Rightarrow>
         (let totalSeconds = max 0 q
          in case floor_div totalSeconds 3600 of Inl err \<Rightarrow> Inl err | Inr hours \<Rightarrow>
             case floor_div (totalSeconds mod 3600) 60 of Inl err \<Rightarrow> Inl err | Inr minutes \<Rightarrow>
               (let seconds = totalSeconds mod 60
                in case Number_toString hours of Inl err \<Rightarrow> Inl err | Inr hs \<Rightarrow>
                   case Number_toString minutes of Inl err \<Rightarrow> Inl err | Inr mins \<Rightarrow>
                   case Number_toString seconds of Inl err \<Rightarrow> Inl err | Inr secs \<Rightarrow>
                     Inr (hs @ '':'' @ padStart mins 2 (CHR ''0'')
                             @ '':'' @ padStart secs 2 (CHR ''0'')))))"

text \<open>The two-digit, zero-padded rendering the specification asks for.\<close>

definition two_digits :: "int \<Rightarrow> string" where
  "two_digits k = [digit_char (nat k div 10), digit_char (nat k mod 10)]"

subsection \<open>JavaScript values, Date objects and the runtime\<close>

text \<open>
  The values a quest field, a function argument or a result may hold: the primitives, a
  reference to a \<^verbatim>\<open>Date\<close> object, and any other object. An object \<open>JObj toDate prim\<close> is
  described by what the program can ask of it: \<open>toDate\<close> is \<open>Some r\<close> when the object has
  a callable \<^verbatim>\<open>toDate\<close> that returns \<open>r\<close> (a Firestore \<^verbatim>\<open>Timestamp\<close>), and \<open>prim\<close> is what
  its \<^verbatim>\<open>valueOf\<close>/\<^verbatim>\<open>toString\<close> give to \<^verbatim>\<open>ToPrimitive\<close>. Symbols, BigInts and methods that
  throw are outside the model.
\<close>

datatype jsnum = NaN | PosInf | NegInf | Fin rat

type_synonym timevalue = "int option"

type_synonym addr = nat

datatype jsval =
    JUndefined
  | JNull
  | JBool bool
  | JNum jsnum
  | JStr string
  | JDate addr
  | JObj "jsval option" jsval

text \<open>The heap holds the time value of every \<^verbatim>\<open>Date\<close> object: \<open>None\<close> is \<^verbatim>\<open>NaN\<close>, an
  Invalid Date. \<^verbatim>\<open>new Date(...)\<close> appends a cell, so two references are the same object
  exactly when they are equal.\<close>

type_synonym heap = "timevalue list"

definition new_Date :: "heap \<Rightarrow> timevalue \<Rightarrow> jsval \<times> heap" where
  "new_Date h tv = (JDate (length h), h @ [tv])"

text \<open>What the program takes from its runtime: the local time zone adjustment
  (\<open>LocalTZA t isUTC\<close> of ECMA-262, in milliseconds), \<^verbatim>\<open>Date.parse\<close>, the conversion of a
  string to a number, and the clock read by \<^verbatim>\<open>new Date()\<close>.\<close>

record env =
  LocalTZA :: "int \<Rightarrow> bool \<Rightarrow> int"
  Date_parse :: "string \<Rightarrow> timevalue"
  StringToNumber :: "string \<Rightarrow> jsnum"
  Date_now :: int

fun ToBoolean :: "jsval \<Rightarrow> bool" where
  "ToBoolean JUndefined = False"
| "ToBoolean JNull = False"
| "ToBoolean (JBool b) = b"
| "ToBoolean (JNum n) = (n \<noteq> NaN \<and> n \<noteq> Fin 0)"
| "ToBoolean (JStr s) = (s \<noteq> [])"
| "ToBoolean (JDate a) = True"
| "ToBoolean (JObj td p) = True"

text \<open>\<^verbatim>\<open>a || b\<close> and \<^verbatim>\<open>a ?? b\<close>.\<close>

definition js_or :: "jsval \<Rightarrow> jsval \<Rightarrow> jsval" where
  "js_or a b = (if ToBoolean a then a else b)"

definition nullish :: "jsval \<Rightarrow> jsval \<Rightarrow> jsval" where
  "nullish a b = (if a = JUndefined \<or> a = JNull then b else a)"

fun is_primitive :: "jsval \<Rightarrow> bool" where
  "is_primitive (JDate a) = False"
| "is_primitive (JObj td p) = False"
| "is_primitive v = True"

definition num_of_timevalue :: "timevalue \<Rightarrow> jsnum" where
  "num_of_timevalue tv = (case tv of None \<Rightarrow> NaN | Some t \<Rightarrow> Fin (of_int t))"

text \<open>\<^verbatim>\<open>ToPrimitive\<close> with hint number: a Date gives its time value, another object what
  its conversion methods give, and a \<^verbatim>\<open>TypeError\<close> when they give no primitive.\<close>

definition ToPrimitive :: "heap \<Rightarrow> jsval \<Rightarrow> jserror + jsval" where
  "ToPrimitive h v =
     (case v of
        JDate a \<Rightarrow> Inr (JNum (num_of_timevalue (h ! a)))
      | JObj td p \<Rightarrow> (if is_primitive p then Inr p else Inl TypeError)
      | _ \<Rightarrow> Inr v)"

text \<open>\<^verbatim>\<open>ToNumber\<close> of a primitive.\<close>

definition prim_to_number :: "env \<Rightarrow> jsval \<Rightarrow> jsnum" where
  "prim_to_number e p =
     (case p of
        JUndefined \<Rightarrow> NaN
      | JNull \<Rightarrow> Fin 0
      | JBool b \<Rightarrow> Fin (if b then 1 else 0)
      | JNum n \<Rightarrow> n
      | JStr s \<Rightarrow> StringToNumber e s
      | _ \<Rightarrow> NaN)"

text \<open>The comparison \<^verbatim>\<open>x < y\<close> of two numbers: \<open>None\<close> is \<^verbatim>\<open>undefined\<close> (a \<^verbatim>\<open>NaN\<close> operand).\<close>

fun num_less :: "jsnum \<Rightarrow> jsnum \<Rightarrow> bool option" where
  "num_less NaN y = None"
| "num_less x NaN = None"
| "num_less (Fin x) (Fin y) = Some (x < y)"
| "num_less PosInf y = Some False"
| "num_less x PosInf = Some True"
| "num_less x NegInf = Some False"
| "num_less NegInf y = Some True"

text \<open>Strings compare by code units.\<close>

fun str_less :: "string \<Rightarrow> string \<Rightarrow> bool" where
  "str_less xs [] = False"
| "str_less [] (y # ys) = True"
| "str_less (x # xs) (y # ys) =
     ((of_char x :: nat) < of_char y \<or> (x = y \<and> str_less xs ys))"

text \<open>\<^verbatim>\<open>a >= b\<close>: false when \<^verbatim>\<open>a < b\<close> is true or undefined.\<close>

definition js_ge :: "env \<Rightarrow> heap \<Rightarrow> jsval \<Rightarrow> jsval \<Rightarrow> jserror + bool" where
  "js_ge e h a b =
     (case ToPrimitive h a of Inl err \<Rightarrow> Inl err | Inr px \<Rightarrow>
      case ToPrimitive h b of Inl err \<Rightarrow> Inl err | Inr py \<Rightarrow>
        (case (px, py) of
           (JStr s, JStr t) \<Rightarrow> Inr (\<not> str_less s t)
         | _ \<Rightarrow> Inr (num_less (prim_to_number e px) (prim_to_number e py) = Some False)))"

text \<open>\<^verbatim>\<open>x > y\<close> on two numbers that are time values.\<close>

definition tv_greater :: "timevalue \<Rightarrow> timevalue \<Rightarrow> bool" where
  "tv_greater x y = (case (x, y) of (Some a, Some b) \<Rightarrow> b < a | _ \<Rightarrow> False)"

subsection \<open>Time values and the calendar (ECMA-262, Date objects)\<close>

definition msPerDay :: int where
  "msPerDay = 86400000"

definition Day :: "int \<Rightarrow> int" where
  "Day t = t div msPerDay"

definition TimeWithinDay :: "int \<Rightarrow> int" where
  "TimeWithinDay t = t mod msPerDay"

definition DaysInYear :: "int \<Rightarrow> int" where
  "DaysInYear y = (if y mod 4 \<noteq> 0 then 365 else if y mod 100 \<noteq> 0 then 366
                   else if y mod 400 \<noteq> 0 then 365 else 366)"

definition DayFromYear :: "int \<Rightarrow> int" where
  "DayFromYear y = 365 * (y - 1970) + (y - 1969) div 4 - (y - 1901) div 100 + (y - 1601) div 400"

text \<open>The year of a day number: the largest \<open>y\<close> with \<open>DayFromYear y \<le> d\<close>, found from
  the mean length of a Gregorian year and one correction step
  (\<open>YearFromDay_bounds\<close>, \<open>YearFromDay_largest\<close> below).\<close>

definition YearFromDay :: "int \<Rightarrow> int" where
  "YearFromDay d =
     (let y = 1970 + (400 * d) div 146097
      in if d < DayFromYear y then y - 1
         else if DayFromYear (y + 1) \<le> d then y + 1
         else y)"

definition YearFromTime :: "int \<Rightarrow> int" where
  "YearFromTime t = YearFromDay (Day t)"

definition DayWithinYear :: "int \<Rightarrow> int" where
  "DayWithinYear t = Day t - DayFromYear (YearFromTime t)"

definition InLeapYear :: "int \<Rightarrow> int" where
  "InLeapYear t = (if DaysInYear (YearFromTime t) = 366 then 1 else 0)"

definition MonthFromTime :: "int \<Rightarrow> int" where
  "MonthFromTime t =
     (let d = DayWithinYear t; L = InLeapYear t
      in if d < 31 then 0
         else if d < 59 + L then 1
         else if d < 90 + L then 2
         else if d < 120 + L then 3
         else if d < 151 + L then 4
         else if d < 181 + L then 5
         else if d < 212 + L then 6
         else if d < 243 + L then 7
         else if d < 273 + L then 8
         else if d < 304 + L then 9
         else if d < 334 + L then 10
         else 11)"

definition DateFromTime :: "int \<Rightarrow> int" where
  "DateFromTime t =
     (let d = DayWithinYear t; L = InLeapYear t; m = MonthFromTime t
      in if m = 0 then d + 1
         else if m = 1 then d - 30
         else if m = 2 then d - 58 - L
         else if m = 3 then d - 89 - L
         else if m = 4 then d - 119 - L
         else if m = 5 then d - 150 - L
         else if m = 6 then d - 180 - L
         else if m = 7 then d - 211 - L
         else if m = 8 then d - 242 - L
         else if m = 9 then d - 272 - L
         else if m = 10 then d - 303 - L
         else d - 333 - L)"

definition WeekDay :: "int \<Rightarrow> int" where
  "WeekDay t = (Day t + 4) mod 7"

text \<open>The day number on which month \<open>mn\<close> (0 to 11) of a year begins, counted from the
  first day of that year; \<open>L\<close> is 1 in a leap year.\<close>

definition DaysBeforeMonth :: "int \<Rightarrow> int \<Rightarrow> int" where
  "DaysBeforeMonth mn L =
     (if mn = 0 then 0
      else if mn = 1 then 31
      else if mn = 2 then 59 + L
      else if mn = 3 then 90 + L
      else if mn = 4 then 120 + L
      else if mn = 5 then 151 + L
      else if mn = 6 then 181 + L
      else if mn = 7 then 212 + L
      else if mn = 8 then 243 + L
      else if mn = 9 then 273 + L
      else if mn = 10 then 304 + L
      else 334 + L)"

definition MakeDay :: "int \<Rightarrow> int \<Rightarrow> int \<Rightarrow> int" where
  "MakeDay year month date =
     (let ym = year + month div 12; mn = month mod 12
      in DayFromYear ym + DaysBeforeMonth mn (if DaysInYear ym = 366 then 1 else 0) + date - 1)"

definition MakeTime :: "int \<Rightarrow> int \<Rightarrow> int \<Rightarrow> int \<Rightarrow> int" where
  "MakeTime hour minute sec ms = hour * 3600000 + minute * 60000 + sec * 1000 + ms"

definition MakeDate :: "int \<Rightarrow> int \<Rightarrow> int" where
  "MakeDate day time = day * msPerDay + time"

definition TimeClip :: "int \<Rightarrow> timevalue" where
  "TimeClip t = (if \<bar>t\<bar> > 8640000000000000 then None else Some t)"

definition TimeClip_num :: "jsnum \<Rightarrow> timevalue" where
  "TimeClip_num n =
     (case n of
        Fin x \<Rightarrow> (if \<bar>x\<bar> > 8640000000000000 then None
                  else Some (if 0 \<le> x then \<lfloor>x\<rfloor> else \<lceil>x\<rceil>))
      | _ \<Rightarrow> None)"

definition LocalTime :: "env \<Rightarrow> int \<Rightarrow> int" where
  "LocalTime e t = t + LocalTZA e t True"

definition UTC :: "env \<Rightarrow> int \<Rightarrow> int" where
  "UTC e t = t - LocalTZA e t False"

subsection \<open>The Date methods the program calls\<close>

text \<open>Each works on the time value of the receiver. A numeric argument or result is an
  \<open>int option\<close>, \<open>None\<close> for \<^verbatim>\<open>NaN\<close>.\<close>

definition getFullYear :: "env \<Rightarrow> timevalue \<Rightarrow> int option" where
  "getFullYear e tv = map_option (\<lambda>t. YearFromTime (LocalTime e t)) tv"

definition getMonth :: "env \<Rightarrow> timevalue \<Rightarrow> int option" where
  "getMonth e tv = map_option (\<lambda>t. MonthFromTime (LocalTime e t)) tv"

definition getDate :: "env \<Rightarrow> timevalue \<Rightarrow> int option" where
  "getDate e tv = map_option (\<lambda>t. DateFromTime (LocalTime e t)) tv"

definition getDay :: "env \<Rightarrow> timevalue \<Rightarrow> int option" where
  "getDay e tv = map_option (\<lambda>t. WeekDay (LocalTime e t)) tv"

definition setDate :: "env \<Rightarrow> int option \<Rightarrow> timevalue \<Rightarrow> timevalue" where
  "setDate e dt tv =
     (case tv of None \<Rightarrow> None | Some t0 \<Rightarrow>
      case dt of None \<Rightarrow> None | Some d \<Rightarrow>
        (let t = LocalTime e t0
         in TimeClip (UTC e (MakeDate (MakeDay (YearFromTime t) (MonthFromTime t) d)
                                      (TimeWithinDay t)))))"

definition setMonth :: "env \<Rightarrow> int option \<Rightarrow> timevalue \<Rightarrow> timevalue" where
  "setMonth e month tv =
     (case tv of None \<Rightarrow> None | Some t0 \<Rightarrow>
      case month of None \<Rightarrow> None | Some m \<Rightarrow>
        (let t = LocalTime e t0
         in TimeClip (UTC e (MakeDate (MakeDay (YearFromTime t) m (DateFromTime t))
                                      (TimeWithinDay t)))))"

text \<open>\<^verbatim>\<open>d.setHours(0, 0, 0, 0)\<close>.\<close>

definition setHours_zero :: "env \<Rightarrow> timevalue \<Rightarrow> timevalue" where
  "setHours_zero e tv =
     (case tv of None \<Rightarrow> None | Some t0 \<Rightarrow>
        TimeClip (UTC e (MakeDate (Day (LocalTime e t0)) (MakeTime 0 0 0 0))))"

text \<open>\<^verbatim>\<open>new Date(year, month, date)\<close>: a year from 0 to 99 means 1900 + year.\<close>

definition Date_of_fields :: "env \<Rightarrow> int option \<Rightarrow> int \<Rightarrow> int \<Rightarrow> timevalue" where
  "Date_of_fields e year month date =
     (case year of None \<Rightarrow> None | Some y \<Rightarrow>
        (let yr = (if 0 \<le> y \<and> y \<le> 99 then 1900 + y else y)
         in TimeClip (UTC e (MakeDate (MakeDay yr month date) (MakeTime 0 0 0 0)))))"

text \<open>The time value of \<^verbatim>\<open>new Date(value)\<close>: a Date is copied, a string is parsed, any
  other value is converted to a number.\<close>

definition Date_value :: "env \<Rightarrow> heap \<Rightarrow> jsval \<Rightarrow> jserror + timevalue" where
  "Date_value e h v =
     (case v of
        JDate a \<Rightarrow> Inr (h ! a)
      | _ \<Rightarrow>
        (case ToPrimitive h v of Inl err \<Rightarrow> Inl err | Inr p \<Rightarrow>
           (case p of
              JStr s \<Rightarrow> Inr (Date_parse e s)
            | _ \<Rightarrow> Inr (TimeClip_num (prim_to_number e p)))))"

text \<open>A parameter with the default \<^verbatim>\<open>new Date()\<close>, cloned by \<^verbatim>\<open>new Date(param)\<close>.\<close>

definition Date_value_default :: "env \<Rightarrow> heap \<Rightarrow> jsval \<Rightarrow> jserror + timevalue" where
  "Date_value_default e h v =
     (if v = JUndefined then Inr (Some (Date_now e)) else Date_value e h v)"

definition num_add :: "int option \<Rightarrow> int \<Rightarrow> int option" where
  "num_add x n = map_option (\<lambda>a. a + n) x"

text \<open>A number in a template literal.\<close>

definition num_str :: "int option \<Rightarrow> jserror + string" where
  "num_str x = (case x of None \<Rightarrow> Inr ''NaN'' | Some i \<Rightarrow> Number_toString i)"

subsection \<open>\<^verbatim>\<open>getDueDateFromNow\<close> (questHelpers.js, lines 11--27)\<close>

text \<open>A Date that a function builds and returns is allocated when it is returned, with
  the time value the function's own updates have given it. The interval is an integer,
  and an omitted \<open>unit\<close> is \<open>once\<close>.\<close>

definition getDueDateFromNow :: "env \<Rightarrow> heap \<Rightarrow> jsval \<Rightarrow> int \<Rightarrow> jsval \<Rightarrow> jserror + jsval \<times> heap" where
  "getDueDateFromNow e h unit_arg interval fromDate =
     (let unit = (if unit_arg = JUndefined then JStr ''once'' else unit_arg)
      in case Date_value_default e h fromDate of Inl err \<Rightarrow> Inl err | Inr base \<Rightarrow>
        if unit = JStr ''days'' then
          Inr (new_Date h (case base of None \<Rightarrow> None
                                      | Some t \<Rightarrow> TimeClip (t + interval * 24 * 60 * 60 * 1000)))
        else if unit = JStr ''weeks'' then
          Inr (new_Date h (case base of None \<Rightarrow> None
                                      | Some t \<Rightarrow> TimeClip (t + interval * 7 * 24 * 60 * 60 * 1000)))
        else if unit = JStr ''months'' then
          Inr (new_Date h (setMonth e (num_add (getMonth e base) interval) base))
        else Inr (new_Date h base))"

subsection \<open>\<^verbatim>\<open>coerceDate\<close> (questHelpers.js, lines 29--34)\<close>

definition coerceDate :: "env \<Rightarrow> heap \<Rightarrow> jsval \<Rightarrow> jserror + jsval \<times> heap" where
  "coerceDate e h v =
     (if \<not> ToBoolean v then Inr (JNull, h)
      else case v of
        JDate a \<Rightarrow> Inr (v, h)
      | JObj (Some r) p \<Rightarrow> Inr (r, h)
      | _ \<Rightarrow> (case Date_value e h v of Inl err \<Rightarrow> Inl err | Inr tv \<Rightarrow> Inr (new_Date h tv)))"

subsection \<open>\<^verbatim>\<open>calculateXpWithFairness\<close> (questHelpers.js, lines 36--55)\<close>

text \<open>A user record; \<open>user_id\<close> is its field \<^verbatim>\<open>id\<close>. A numeric field is \<open>None\<close> when the
  document has no number there.\<close>

record user =
  user_id :: string
  total_xp :: "int option"
  weekly_xp :: "int option"
  star_coins :: "int option"
  fairness_threshold :: "int option"



text \<open>\<^verbatim>\<open>x || 0\<close> on a numeric field.\<close>

definition or_zero :: "int option \<Rightarrow> int" where
  "or_zero x = (case x of None \<Rightarrow> 0 | Some n \<Rightarrow> n)"



subsection \<open>Calendar keys (QuestManager.jsx, lines 97--114)\<close>

definition startOfDay :: "env \<Rightarrow> heap \<Rightarrow> jsval \<Rightarrow> jserror + timevalue" where
  "startOfDay e h date =
     (case Date_value e h date of Inl err \<Rightarrow> Inl err | Inr d \<Rightarrow> Inr (setHours_zero e d))"

definition getWeekKey :: "env \<Rightarrow> heap \<Rightarrow> jsval \<Rightarrow> jserror + string" where
  "getWeekKey e h date =
     (case Date_value e h date of Inl err \<Rightarrow> Inl err | Inr d \<Rightarrow>
        (let firstDayOfYear = Date_of_fields e (getFullYear e d) 0 1;
             week = (case (d, firstDayOfYear, getDay e firstDayOfYear) of
                       (Some a, Some b, Some wd) \<Rightarrow>
                         Some \<lfloor>((of_int (a - b) :: rat) / 86400000 + of_int wd + 1) / 7\<rfloor>
                     | _ \<Rightarrow> None)
         in case num_str (getFullYear e d) of Inl err \<Rightarrow> Inl err | Inr year \<Rightarrow>
            case num_str week of Inl err \<Rightarrow> Inl err | Inr wk \<Rightarrow>
              Inr (year @ ''-W'' @ wk)))"

definition getMonthKey :: "env \<Rightarrow> heap \<Rightarrow> jsval \<Rightarrow> jserror + string" where
  "getMonthKey e h date =
     (case Date_value e h date of Inl err \<Rightarrow> Inl err | Inr d \<Rightarrow>
        (case num_str (getFullYear e d) of Inl err \<Rightarrow> Inl err | Inr year \<Rightarrow>
         case num_str (num_add (getMonth e d) 1) of Inl err \<Rightarrow> Inl err | Inr month \<Rightarrow>
           Inr (year @ ''-'' @ month)))"

subsection \<open>\<^verbatim>\<open>normalizeQuestDoc\<close> (QuestManager.jsx, lines 116--170)\<close>

text \<open>The fields of a quest document that decide when it is due. The title, difficulty,
  XP, reservation and provenance fields, which \<^verbatim>\<open>normalizeQuestDoc\<close> also fills in, take
  no part in it and are not in the record. A field the document lacks is
  \<^verbatim>\<open>undefined\<close>.\<close>

record quest =
  isActive :: jsval
  nextDueAt :: jsval
  lastCompletedAt :: jsval
  last_completed_at :: jsval
  last_completed :: jsval
  frequencyType :: jsval
  frequency :: jsval
  frequencyInterval :: jsval

definition normalizeQuestDoc :: "env \<Rightarrow> heap \<Rightarrow> quest \<Rightarrow> jserror + quest \<times> heap" where
  "normalizeQuestDoc e h docData =
     (let freqType =
            js_or (js_or (frequencyType docData)
                         (if frequency docData = JStr ''once'' then JStr ''once''
                          else js_or (frequency docData) (JStr ''daily'')))
                  (JStr ''daily'');
          freqInterval = nullish (frequencyInterval docData) (JNum (Fin 1));
          lastCompleted =
            js_or (js_or (js_or (lastCompletedAt docData) (last_completed_at docData))
                         (last_completed docData))
                  JNull
      in case (if ToBoolean lastCompleted then coerceDate e h lastCompleted else Inr (JNull, h)) of
           Inl err \<Rightarrow> Inl err
         | Inr (normalizedLastCompleted, h1) \<Rightarrow>
           (case (if ToBoolean (nextDueAt docData) then coerceDate e h1 (nextDueAt docData)
                  else Inr (JNull, h1)) of
              Inl err \<Rightarrow> Inl err
            | Inr (nextDue, h2) \<Rightarrow>
              Inr (docData\<lparr>frequencyType := freqType,
                           frequencyInterval := freqInterval,
                           nextDueAt := nextDue,
                           isActive := (if isActive docData \<noteq> JUndefined then isActive docData
                                        else JBool True),
                           lastCompletedAt := normalizedLastCompleted\<rparr>, h2)))"

subsection \<open>\<^verbatim>\<open>calculateNextDueAt\<close> (QuestManager.jsx, lines 172--189)\<close>

text \<open>The interval is an integer: the quest form stores \<^verbatim>\<open>Math.max(1, Number(...) || 1)\<close>.
  The \<^verbatim>\<open>switch\<close> compares with \<^verbatim>\<open>===\<close>, so only the string itself selects a case.\<close>

definition calculateNextDueAt :: "env \<Rightarrow> heap \<Rightarrow> jsval \<Rightarrow> int \<Rightarrow> jsval \<Rightarrow> jserror + jsval \<times> heap" where
  "calculateNextDueAt e h freqType freqInterval fromDate =
     (case Date_value_default e h fromDate of Inl err \<Rightarrow> Inl err | Inr date \<Rightarrow>
        if freqType = JStr ''once'' then Inr (new_Date h date)
        else if freqType = JStr ''daily'' then
          Inr (new_Date h (setDate e (num_add (getDate e date) freqInterval) date))
        else if freqType = JStr ''weekly'' then
          Inr (new_Date h (setDate e (num_add (getDate e date) (freqInterval * 7)) date))
        else if freqType = JStr ''monthly'' then
          Inr (new_Date h (setMonth e (num_add (getMonth e date) freqInterval) date))
        else Inr (new_Date h date))"

subsection \<open>\<^verbatim>\<open>isQuestDue\<close> (QuestManager.jsx, lines 191--216)\<close>

text \<open>The result is a JavaScript value: \<^verbatim>\<open>nextDue && now >= nextDue\<close> gives back
  \<open>nextDue\<close> itself when that is falsy.\<close>

definition isQuestDue :: "env \<Rightarrow> heap \<Rightarrow> quest \<Rightarrow> jsval \<Rightarrow> jserror + jsval" where
  "isQuestDue e h0 q now_arg =
     (let (now, h) = (if now_arg = JUndefined then new_Date h0 (Some (Date_now e))
                      else (now_arg, h0))
      in if isActive q = JBool False then Inr (JBool False)
         else if ToBoolean (nextDueAt q) then
           (case coerceDate e h (nextDueAt q) of Inl err \<Rightarrow> Inl err | Inr (nextDue, h1) \<Rightarrow>
              if \<not> ToBoolean nextDue then Inr nextDue
              else (case js_ge e h1 now nextDue of Inl err \<Rightarrow> Inl err
                                                  | Inr b \<Rightarrow> Inr (JBool b)))
         else
           (let lastCompleted = lastCompletedAt q;
                freqType = js_or (js_or (frequencyType q) (frequency q)) (JStr ''once'')
            in if freqType = JStr ''once'' then Inr (JBool (\<not> ToBoolean lastCompleted))
               else if freqType = JStr ''daily'' then
                 (if \<not> ToBoolean lastCompleted then Inr (JBool True)
                  else case startOfDay e h now of Inl err \<Rightarrow> Inl err | Inr a \<Rightarrow>
                       case startOfDay e h lastCompleted of Inl err \<Rightarrow> Inl err | Inr b \<Rightarrow>
                         Inr (JBool (tv_greater a b)))
               else if freqType = JStr ''weekly'' then
                 (if \<not> ToBoolean lastCompleted then Inr (JBool True)
                  else case getWeekKey e h now of Inl err \<Rightarrow> Inl err | Inr a \<Rightarrow>
                       case getWeekKey e h lastCompleted of Inl err \<Rightarrow> Inl err | Inr b \<Rightarrow>
                         Inr (JBool (a \<noteq> b)))
               else if freqType = JStr ''monthly'' then
                 (if \<not> ToBoolean lastCompleted then Inr (JBool True)
                  else case getMonthKey e h now of Inl err \<Rightarrow> Inl err | Inr a \<Rightarrow>
                       case getMonthKey e h lastCompleted of Inl err \<Rightarrow> Inl err | Inr b \<Rightarrow>
                         Inr (JBool (a \<noteq> b)))
               else Inr (JBool True)))"

subsection \<open>\<^verbatim>\<open>updateUserProgress\<close> (QuestManager.jsx, lines 805--822)\<close>

text \<open>The user collection of the document store, by document id. \<^verbatim>\<open>setDoc\<close> with
  \<^verbatim>\<open>merge: true\<close> overwrites the fields it is given and keeps the others; on a missing
  document it creates one with those fields only.\<close>

type_synonym user_store = "string \<rightharpoonup> user"

definition setDoc_merge :: "user_store \<Rightarrow> string \<Rightarrow> (user \<Rightarrow> user) \<Rightarrow> user_store" where
  "setDoc_merge store docId written =
     store(docId \<mapsto> written (case store docId of
                                Some d \<Rightarrow> d
                              | None \<Rightarrow> \<lparr>user_id = docId, total_xp = None, weekly_xp = None,
                                         star_coins = None, fairness_threshold = None\<rparr>))"

text \<open>\<open>users\<close> is the component's snapshot of the collection, which the function reads
  the prior totals from.\<close>

definition updateUserProgress :: "user list \<Rightarrow> user_store \<Rightarrow> string \<Rightarrow> int \<Rightarrow> jserror + user_store" where
  "updateUserProgress users store userId xpDelta =
     (let found = find (\<lambda>u. user_id u = userId) users;
          baseTotal = (case found of None \<Rightarrow> 0 | Some u \<Rightarrow> or_zero (total_xp u));
          baseWeekly = (case found of None \<Rightarrow> 0 | Some u \<Rightarrow> or_zero (weekly_xp u))
      in case num_plus baseTotal xpDelta of Inl err \<Rightarrow> Inl err | Inr newTotal \<Rightarrow>
         case num_plus baseWeekly xpDelta of Inl err \<Rightarrow> Inl err | Inr newWeekly \<Rightarrow>
         case floor_div newTotal 10 of Inl err \<Rightarrow> Inl err | Inr newStarCoins \<Rightarrow>
           Inr (setDoc_merge store userId
                  (\<lambda>d. d\<lparr>total_xp := Some newTotal, weekly_xp := Some newWeekly,
                          star_coins := Some newStarCoins\<rparr>)))"

subsection \<open>Notions of the specification and sample data\<close>




text \<open>A runtime in the UTC zone whose \<^verbatim>\<open>Date.parse\<close> knows one ISO string.\<close>

definition utc_env :: env where
  "utc_env = \<lparr>LocalTZA = (\<lambda>t isUTC. 0),
              Date_parse = (\<lambda>s. if s = ''2025-01-15T00:00:00.000Z'' then Some 1736899200000 else None),
              StringToNumber = (\<lambda>s. NaN),
              Date_now = 1735689600000\<rparr>"

text \<open>A quest document with no field at all.\<close>

definition empty_quest :: quest where
  "empty_quest = \<lparr>isActive = JUndefined, nextDueAt = JUndefined, lastCompletedAt = JUndefined,
                   last_completed_at = JUndefined, last_completed = JUndefined,
                   frequencyType = JUndefined, frequency = JUndefined,
                   frequencyInterval = JUndefined\<rparr>"


text \<open>The local calendar day of an instant, and the instant at which that day begins
  (local midnight).\<close>

definition local_day :: "env \<Rightarrow> int \<Rightarrow> int" where
  "local_day e t = Day (LocalTime e t)"



text \<open>The frequency \<^verbatim>\<open>isQuestDue\<close> switches on.\<close>

definition resolved_frequency :: "quest \<Rightarrow> jsval" where
  "resolved_frequency q = js_or (js_or (frequencyType q) (frequency q)) (JStr ''once'')"

text \<open>An instant moved by \<open>n\<close> local calendar days: the same local time of day, \<open>n\<close> days
  later on the local calendar.\<close>

definition add_local_days :: "env \<Rightarrow> int \<Rightarrow> int \<Rightarrow> int" where
  "add_local_days e n t =
     UTC e (MakeDate (local_day e t + n) (TimeWithinDay (LocalTime e t)))"

text \<open>The day number of the first day of month \<open>m\<close> counted from January of year \<open>y\<close>;
  \<open>m\<close> beyond 11 or below 0 carries into the following or preceding years.\<close>

definition first_of_month :: "int \<Rightarrow> int \<Rightarrow> int" where
  "first_of_month y m =
     DayFromYear (y + m div 12)
       + DaysBeforeMonth (m mod 12) (if DaysInYear (y + m div 12) = 366 then 1 else 0)"

text \<open>An instant moved by \<open>n\<close> calendar months: the local year, month and day of month
  are read off, the month is advanced by \<open>n\<close>, and the day of month is counted from the
  first of that month, running on into the next month when that month is shorter.\<close>

definition add_local_months :: "env \<Rightarrow> int \<Rightarrow> int \<Rightarrow> int" where
  "add_local_months e n t =
     (let lt = LocalTime e t
      in UTC e (MakeDate (first_of_month (YearFromTime lt) (MonthFromTime lt + n)
                            + (DateFromTime lt - 1))
                         (TimeWithinDay lt)))"

text \<open>A zone like Europe/London in 2025: UTC, and one hour ahead between the last
  Sundays of March and October (01:00 UTC).\<close>

definition dst_env :: env where
  "dst_env = \<lparr>LocalTZA = (\<lambda>t isUTC.
                  if isUTC then (if 1743296400000 \<le> t \<and> t < 1761440400000 then 3600000 else 0)
                  else (if 1743300000000 \<le> t \<and> t < 1761444000000 then 3600000 else 0)),
              Date_parse = (\<lambda>s. None),
              StringToNumber = (\<lambda>s. NaN),
              Date_now = 1735689600000\<rparr>"





section \<open>Properties\<close>

subsection \<open>Safe integers\<close>

lemma safe_integer_iff: "safe_integer n \<longleftrightarrow> - (2 ^ 53) < n \<and> n < 2 ^ 53"
  by (auto simp: safe_integer_def MAX_SAFE_INTEGER_def)

lemma safe_integer_between: "0 \<le> k \<Longrightarrow> k \<le> m \<Longrightarrow> safe_integer m \<Longrightarrow> safe_integer k"
  by (simp add: safe_integer_def)

lemma safe_integer_small: "0 \<le> k \<Longrightarrow> k < 3600 \<Longrightarrow> safe_integer k"
  by (simp add: safe_integer_def MAX_SAFE_INTEGER_def)

lemma safe_integer_gap:
  "0 \<le> a \<Longrightarrow> 0 \<le> b \<Longrightarrow> safe_integer a \<Longrightarrow> safe_integer b \<Longrightarrow> safe_integer (a - b)"
  by (simp add: safe_integer_def)

lemma int_div_le_self: "0 \<le> (a::int) \<Longrightarrow> 0 < b \<Longrightarrow> a div b \<le> a"
  using zdiv_mono2[of a 1 b] by simp

lemma Number_toString_safe: "safe_integer i \<Longrightarrow> Number_toString i = Inr (decimal i)"
  by (simp add: Number_toString_def)

lemma floor_div_safe: "safe_integer a \<Longrightarrow> floor_div a d = Inr (a div d)"
  by (simp add: floor_div_def)

subsection \<open>Duration formatter\<close>

lemma nat_digits_small: "n < 10 \<Longrightarrow> nat_digits n = [digit_char n]"
  by (simp add: nat_digits.simps)

lemma nat_digits_two: "10 \<le> n \<Longrightarrow> n < 100 \<Longrightarrow> nat_digits n = [digit_char (n div 10), digit_char (n mod 10)]"
  by (subst nat_digits.simps) (simp add: nat_digits_small)

lemma padStart_two_digits:
  assumes "0 \<le> k" and "k < 100"
  shows "padStart (decimal k) 2 (CHR ''0'') = two_digits k"
proof (cases "k < 10")
  case True
  with assms have "nat k < 10" by simp
  then have "nat k div 10 = 0" "nat k mod 10 = nat k" by simp_all
  with assms True show ?thesis
    by (simp add: padStart_def decimal_def two_digits_def nat_digits_small digit_char_def)
next
  case False
  with assms have "10 \<le> nat k" "nat k < 100" by simp_all
  with assms show ?thesis
    by (simp add: padStart_def decimal_def two_digits_def nat_digits_two)
qed

lemma minutes_of_seconds: "((t::int) mod 3600) div 60 = t div 60 mod 60"
proof -
  have "t mod (60 * 60) = 60 * (t div 60 mod 60) + t mod 60"
    by (rule zmod_zmult2_eq) simp
  then show ?thesis by simp
qed

lemma hms_sum: "(t::int) div 3600 * 3600 + t div 60 mod 60 * 60 + t mod 60 = t"
proof -
  have "t mod (60 * 60) = 60 * (t div 60 mod 60) + t mod 60"
    by (rule zmod_zmult2_eq) simp
  moreover have "t = 3600 * (t div 3600) + t mod 3600" by simp
  ultimately show ?thesis by simp
qed

lemma formatMs_seconds:
  assumes "safe_integer ms" and "0 \<le> t" and "safe_integer t" and "max 0 (ms div 1000) = t"
  shows "formatMs (Some ms) =
           Inr (decimal (t div 3600) @ '':'' @ two_digits (t div 60 mod 60)
                  @ '':'' @ two_digits (t mod 60))"
proof -
  define hours where "hours = t div 3600"
  define minutes where "minutes = t div 60 mod 60"
  define seconds where "seconds = t mod 60"
  have h: "0 \<le> hours" "hours \<le> t"
    using assms(2) by (simp_all add: hours_def int_div_le_self)
  have m: "0 \<le> minutes" "minutes < 100" by (simp_all add: minutes_def)
  have sc: "0 \<le> seconds" "seconds < 100" by (simp_all add: seconds_def)
  have r: "0 \<le> t mod 3600" "t mod 3600 < 3600" by simp_all
  have f1: "floor_div ms 1000 = Inr (ms div 1000)"
    by (rule floor_div_safe[OF assms(1)])
  have f2: "floor_div t 3600 = Inr hours"
    unfolding hours_def by (rule floor_div_safe[OF assms(3)])
  have f3: "floor_div (t mod 3600) 60 = Inr minutes"
    unfolding minutes_def minutes_of_seconds[symmetric]
    by (rule floor_div_safe[OF safe_integer_small[OF r]])
  have n1: "Number_toString hours = Inr (decimal hours)"
    by (rule Number_toString_safe[OF safe_integer_between[OF h assms(3)]])
  have n2: "Number_toString minutes = Inr (decimal minutes)"
    using m by (intro Number_toString_safe safe_integer_small) simp_all
  have n3: "Number_toString seconds = Inr (decimal seconds)"
    using sc by (intro Number_toString_safe safe_integer_small) simp_all
  have "formatMs (Some ms) =
          Inr (decimal hours @ '':'' @ padStart (decimal minutes) 2 (CHR ''0'')
                 @ '':'' @ padStart (decimal seconds) 2 (CHR ''0''))"
    unfolding formatMs_def
    by (simp only: option.case f1 sum.case Let_def assms(4) f2 f3 seconds_def[symmetric] n1 n2 n3)
  then have "formatMs (Some ms) =
          Inr (decimal hours @ '':'' @ two_digits minutes @ '':'' @ two_digits seconds)"
    by (simp only: padStart_two_digits[OF m] padStart_two_digits[OF sc])
  then show ?thesis
    by (simp only: hours_def minutes_def seconds_def)
qed

lemma formatMs_nonneg:
  assumes "0 \<le> ms" and "safe_integer ms"
  shows "formatMs (Some ms) =
           Inr (decimal (ms div 1000 div 3600) @ '':'' @ two_digits (ms div 1000 div 60 mod 60)
                  @ '':'' @ two_digits (ms div 1000 mod 60))"
proof -
  have t: "0 \<le> ms div 1000" "ms div 1000 \<le> ms"
    using assms(1) by (simp_all add: int_div_le_self)
  have mx: "max 0 (ms div 1000) = ms div 1000" using t(1) by simp
  show ?thesis
    by (rule formatMs_seconds[OF assms(2) t(1) safe_integer_between[OF t assms(2)] mx])
qed

lemma decimal_zero: "decimal 0 = ''0''" "two_digits 0 = ''00''"
  by (simp_all add: decimal_def nat_digits_small two_digits_def digit_char_def)

lemma formatMs_clamped:
  assumes "ms \<le> 0" and "safe_integer ms"
  shows "formatMs (Some ms) = Inr ''0:00:00''"
proof -
  have "ms div 1000 \<le> 0" using assms(1) by simp
  then have mx: "max 0 (ms div 1000) = 0" by simp
  have z: "safe_integer 0" by (simp add: safe_integer_def MAX_SAFE_INTEGER_def)
  have "formatMs (Some ms) =
          Inr (decimal (0 div 3600) @ '':'' @ two_digits (0 div 60 mod 60)
                 @ '':'' @ two_digits (0 mod 60))"
    by (rule formatMs_seconds[OF assms(2) _ z mx]) simp
  then show ?thesis by (simp add: decimal_zero)
qed

text \<open>
  Claim C6. For a non-negative millisecond count below \<open>2^53\<close> (a safe integer, on which
  the source's double arithmetic is exact) the result is \<open>H:MM:SS\<close> with \<open>H\<close> the whole
  hours (decimal, unpadded, not reduced modulo 24), and \<open>MM\<close>, \<open>SS\<close> the remaining minutes
  and seconds, both in \<open>[0, 59]\<close> and written with two digits; the three parts account
  for every whole second. A negative safe integer or a missing argument gives
  \<open>0:00:00\<close>, and the three examples of the specification hold.
\<close>

theorem formatMs_spec:
  "(0 \<le> ms \<and> ms < 2 ^ 53 \<longrightarrow>
      (\<exists>H M S. H = ms div 1000 div 3600 \<and> 0 \<le> M \<and> M \<le> 59 \<and> 0 \<le> S \<and> S \<le> 59
         \<and> H * 3600 + M * 60 + S = ms div 1000
         \<and> formatMs (Some ms) = Inr (decimal H @ '':'' @ two_digits M @ '':'' @ two_digits S)))
   \<and> (ms < 0 \<and> - (2 ^ 53) < ms \<longrightarrow> formatMs (Some ms) = Inr ''0:00:00'')
   \<and> formatMs None = Inr ''0:00:00''
   \<and> formatMs (Some 0) = Inr ''0:00:00''
   \<and> formatMs (Some 3661000) = Inr ''1:01:01''
   \<and> formatMs (Some 59000) = Inr ''0:00:59''"
proof -
  have a: "0 \<le> ms \<and> ms < 2 ^ 53 \<longrightarrow>
      (\<exists>H M S. H = ms div 1000 div 3600 \<and> 0 \<le> M \<and> M \<le> 59 \<and> 0 \<le> S \<and> S \<le> 59
         \<and> H * 3600 + M * 60 + S = ms div 1000
         \<and> formatMs (Some ms) = Inr (decimal H @ '':'' @ two_digits M @ '':'' @ two_digits S))"
  proof
    assume "0 \<le> ms \<and> ms < 2 ^ 53"
    then have nn: "0 \<le> ms" and sf: "safe_integer ms" by (simp_all add: safe_integer_iff)
    define t where "t = ms div 1000"
    have r: "0 \<le> t div 60 mod 60" "t div 60 mod 60 \<le> 59" "0 \<le> t mod 60" "t mod 60 \<le> 59"
      by simp_all
    have sum: "t div 3600 * 3600 + t div 60 mod 60 * 60 + t mod 60 = t"
      by (rule hms_sum)
    have "t div 3600 = ms div 1000 div 3600" by (simp add: t_def)
    with r sum formatMs_nonneg[OF nn sf] show "\<exists>H M S. H = ms div 1000 div 3600 \<and> 0 \<le> M \<and> M \<le> 59 \<and> 0 \<le> S \<and> S \<le> 59
         \<and> H * 3600 + M * 60 + S = ms div 1000
         \<and> formatMs (Some ms) = Inr (decimal H @ '':'' @ two_digits M @ '':'' @ two_digits S)"
      unfolding t_def by blast
  qed
  have z: "safe_integer 0" by (simp add: safe_integer_def MAX_SAFE_INTEGER_def)
  have b: "ms < 0 \<and> - (2 ^ 53) < ms \<longrightarrow> formatMs (Some ms) = Inr ''0:00:00''"
    using formatMs_clamped[of ms] by (simp add: safe_integer_iff)
  have d: "formatMs (Some 0) = Inr ''0:00:00''"
    using formatMs_clamped[of 0] z by simp
  have c: "formatMs None = Inr ''0:00:00''"
    using d by (simp add: formatMs_def)
  have e: "formatMs (Some 3661000) = Inr ''1:01:01''"
    by (simp add: formatMs_nonneg safe_integer_def MAX_SAFE_INTEGER_def decimal_def
        nat_digits_small two_digits_def digit_char_def)
  have f: "formatMs (Some 59000) = Inr ''0:00:59''"
    by (simp add: formatMs_nonneg safe_integer_def MAX_SAFE_INTEGER_def decimal_def
        nat_digits_small two_digits_def digit_char_def)
  from a b c d e f show ?thesis by blast
qed

theorem formatMs_spec_witness:
  "formatMs (Some 90061000) = Inr ''25:01:01'' \<and> formatMs (Some (- 5)) = Inr ''0:00:00''"
proof -
  have "0 \<le> (90061000::int) \<and> (90061000::int) < 2 ^ 53" by simp
  with formatMs_spec[of 90061000] obtain H M S :: int where
    h: "H = 90061000 div 1000 div 3600" "0 \<le> M" "M \<le> 59" "0 \<le> S" "S \<le> 59"
       "H * 3600 + M * 60 + S = 90061000 div 1000"
       "formatMs (Some 90061000) = Inr (decimal H @ '':'' @ two_digits M @ '':'' @ two_digits S)"
    by blast
  from h(1) have H: "H = 25" by simp
  from h(6) H have "M * 60 + S = 61" by simp
  with h(2-5) have MS: "M = 1 \<and> S = 1" by arith
  have one: "formatMs (Some 90061000) = Inr ''25:01:01''"
    using h(7) H MS
    by (simp add: decimal_def nat_digits_two two_digits_def digit_char_def)
  have two: "formatMs (Some (- 5)) = Inr ''0:00:00''"
    using formatMs_spec[of "- 5"] by simp
  from one two show ?thesis by blast
qed

subsection \<open>Fairness calculator\<close>

lemma floor_rat_numeral_div:
  "\<lfloor>numeral a / numeral b :: rat\<rfloor> = numeral a div numeral b"
  by (metis floor_divide_of_int_eq of_int_numeral)





subsection \<open>User progress\<close>

text \<open>
  Claim C7. With \<open>t\<close> and \<open>w\<close> the prior totals (0 when missing) and the new totals
  \<open>t + xpDelta\<close> and \<open>w + xpDelta\<close> safe integers (below \<open>2^53\<close> in magnitude, where the
  source's double arithmetic is exact): after \<^verbatim>\<open>updateUserProgress\<close> the user's document
  holds \<open>total_xp = t + xpDelta\<close>, \<open>weekly_xp = w + xpDelta\<close> and
  \<open>star_coins = (t + xpDelta) div 10\<close>, so \<open>star_coins\<close> is \<open>total_xp div 10\<close> (floor
  division) again; no other document changes.
\<close>

theorem updateUserProgress_star_coins:
  "(let t = (case find (\<lambda>u. user_id u = userId) users of None \<Rightarrow> 0 | Some u \<Rightarrow> or_zero (total_xp u));
        w = (case find (\<lambda>u. user_id u = userId) users of None \<Rightarrow> 0 | Some u \<Rightarrow> or_zero (weekly_xp u))
    in \<bar>t + xpDelta\<bar> < 2 ^ 53 \<and> \<bar>w + xpDelta\<bar> < 2 ^ 53 \<longrightarrow>
       (\<exists>store'. updateUserProgress users store userId xpDelta = Inr store'
          \<and> (\<exists>d. store' userId = Some d
                \<and> total_xp d = Some (t + xpDelta)
                \<and> weekly_xp d = Some (w + xpDelta)
                \<and> star_coins d = Some ((t + xpDelta) div 10)
                \<and> star_coins d = map_option (\<lambda>x. x div 10) (total_xp d))
          \<and> (\<forall>k. k \<noteq> userId \<longrightarrow> store' k = store k)))"
  by (auto simp: updateUserProgress_def setDoc_merge_def Let_def num_plus_def floor_div_def
      safe_integer_def MAX_SAFE_INTEGER_def)

theorem updateUserProgress_star_coins_witness:
  "\<exists>store' d. updateUserProgress
          [\<lparr>user_id = ''u1'', total_xp = Some 95, weekly_xp = None, star_coins = Some 9,
            fairness_threshold = None\<rparr>]
          Map.empty ''u1'' 150 = Inr store'
     \<and> store' ''u1'' = Some d
     \<and> total_xp d = Some 245 \<and> weekly_xp d = Some 150 \<and> star_coins d = Some 24"
  using updateUserProgress_star_coins[of "''u1''"
          "[\<lparr>user_id = ''u1'', total_xp = Some 95, weekly_xp = None, star_coins = Some 9,
             fairness_threshold = None\<rparr>]" 150 "Map.empty"]
  by (auto simp: Let_def or_zero_def)

subsection \<open>Date coercion\<close>

lemma coerceDate_falsy: "\<not> ToBoolean v \<Longrightarrow> coerceDate e h v = Inr (JNull, h)"
  by (simp add: coerceDate_def)

lemma coerceDate_Date: "coerceDate e h (JDate a) = Inr (JDate a, h)"
  by (simp add: coerceDate_def)

lemma coerceDate_toDate: "coerceDate e h (JObj (Some r) p) = Inr (r, h)"
  by (simp add: coerceDate_def)

lemma coerceDate_string:
  "s \<noteq> [] \<Longrightarrow> coerceDate e h (JStr s) = Inr (JDate (length h), h @ [Date_parse e s])"
  by (simp add: coerceDate_def Date_value_def ToPrimitive_def new_Date_def)

lemma coerceDate_number:
  "n \<noteq> NaN \<Longrightarrow> n \<noteq> Fin 0 \<Longrightarrow>
     coerceDate e h (JNum n) = Inr (JDate (length h), h @ [TimeClip_num n])"
  by (simp add: coerceDate_def Date_value_def ToPrimitive_def new_Date_def prim_to_number_def)

lemma coerceDate_object_string:
  "coerceDate e h (JObj None (JStr s)) = Inr (JDate (length h), h @ [Date_parse e s])"
  by (simp add: coerceDate_def Date_value_def ToPrimitive_def new_Date_def)

lemma coerceDate_object_primitive:
  assumes "is_primitive p" and "\<forall>s. p \<noteq> JStr s"
  shows "coerceDate e h (JObj None p)
           = Inr (JDate (length h), h @ [TimeClip_num (prim_to_number e p)])"
  using assms
  by (cases p) (simp_all add: coerceDate_def Date_value_def ToPrimitive_def new_Date_def)

lemma coerceDate_object_TypeError:
  "\<not> is_primitive p \<Longrightarrow> coerceDate e h (JObj None p) = Inl TypeError"
  by (simp add: coerceDate_def Date_value_def ToPrimitive_def)

text \<open>
  Claim C5 as stated fails twice. The number 0 is a numeric value, and
  \<^verbatim>\<open>coerceDate(0)\<close> is \<^verbatim>\<open>null\<close>, not the Date \<^verbatim>\<open>new Date(0)\<close> of the epoch. An object that has
  no \<^verbatim>\<open>toDate\<close> and no conversion to a primitive is among "every other value", and on
  it \<^verbatim>\<open>coerceDate\<close> throws a \<^verbatim>\<open>TypeError\<close> instead of returning an invalid date.
\<close>

theorem coerceDate_zero_counterexample:
  "coerceDate utc_env [] (JNum (Fin 0)) = Inr (JNull, [])
   \<and> Date_value utc_env [] (JNum (Fin 0)) = Inr (Some 0)
   \<and> coerceDate utc_env [] (JObj None (JObj None JNull)) = Inl TypeError"
  by (simp add: coerceDate_def Date_value_def ToPrimitive_def prim_to_number_def TimeClip_num_def)

text \<open>
  Claim C5, amended. \<^verbatim>\<open>coerceDate\<close> gives \<^verbatim>\<open>null\<close> for \<^verbatim>\<open>null\<close>, \<^verbatim>\<open>undefined\<close> and every
  other falsy value (0, \<^verbatim>\<open>NaN\<close>, the empty string, \<^verbatim>\<open>false\<close>); a Date is returned as the
  same object, with no allocation; an object with a \<^verbatim>\<open>toDate\<close> method gives that method's
  result. Every other value goes to \<^verbatim>\<open>new Date\<close>: a non-empty string gives a new Date
  holding what \<^verbatim>\<open>Date.parse\<close> makes of it (an Invalid Date when parsing fails, never an
  exception); a number other than 0 and \<^verbatim>\<open>NaN\<close> gives a new Date of that time value;
  \<^verbatim>\<open>true\<close> gives the Date of time value 1; an object without \<^verbatim>\<open>toDate\<close> is converted to
  its primitive value first, which is parsed when it is a string and taken as a number
  otherwise, and when the object has no primitive value \<^verbatim>\<open>coerceDate\<close> throws a
  \<^verbatim>\<open>TypeError\<close>.
\<close>

theorem coerceDate_spec:
  "coerceDate e h JNull = Inr (JNull, h)
   \<and> coerceDate e h JUndefined = Inr (JNull, h)
   \<and> (\<not> ToBoolean v \<longrightarrow> coerceDate e h v = Inr (JNull, h))
   \<and> coerceDate e h (JDate a) = Inr (JDate a, h)
   \<and> coerceDate e h (JObj (Some r) p) = Inr (r, h)
   \<and> (s \<noteq> [] \<longrightarrow> coerceDate e h (JStr s) = Inr (JDate (length h), h @ [Date_parse e s]))
   \<and> (n \<noteq> NaN \<and> n \<noteq> Fin 0 \<longrightarrow>
        coerceDate e h (JNum n) = Inr (JDate (length h), h @ [TimeClip_num n]))
   \<and> coerceDate e h (JBool True) = Inr (JDate (length h), h @ [Some 1])
   \<and> coerceDate e h (JObj None (JStr s)) = Inr (JDate (length h), h @ [Date_parse e s])
   \<and> (is_primitive p \<and> (\<forall>s. p \<noteq> JStr s) \<longrightarrow>
        coerceDate e h (JObj None p)
          = Inr (JDate (length h), h @ [TimeClip_num (prim_to_number e p)]))
   \<and> (\<not> is_primitive p \<longrightarrow> coerceDate e h (JObj None p) = Inl TypeError)"
proof -
  have t: "coerceDate e h (JBool True) = Inr (JDate (length h), h @ [Some 1])"
    by (simp add: coerceDate_def Date_value_def ToPrimitive_def new_Date_def prim_to_number_def
        TimeClip_num_def)
  have o: "is_primitive p \<and> (\<forall>s. p \<noteq> JStr s) \<longrightarrow>
        coerceDate e h (JObj None p)
          = Inr (JDate (length h), h @ [TimeClip_num (prim_to_number e p)])"
    using coerceDate_object_primitive[of p e h] by blast
  show ?thesis
    using coerceDate_falsy[of JNull e h] coerceDate_falsy[of JUndefined e h]
      coerceDate_falsy[of v e h] coerceDate_Date[of e h a] coerceDate_toDate[of e h r p]
      coerceDate_string[of s e h] coerceDate_number[of n e h] t
      coerceDate_object_string[of e h s] o coerceDate_object_TypeError[of p e h]
    by simp
qed

theorem coerceDate_spec_witness:
  "coerceDate utc_env [Some 5] (JNum NaN) = Inr (JNull, [Some 5])
   \<and> coerceDate utc_env [Some 5] (JStr ''2025-01-15T00:00:00.000Z'')
       = Inr (JDate 1, [Some 5, Some 1736899200000])
   \<and> coerceDate utc_env [Some 5] (JStr ''tomorrow'') = Inr (JDate 1, [Some 5, None])
   \<and> coerceDate utc_env [Some 5] (JNum (Fin (3 / 2))) = Inr (JDate 1, [Some 5, Some 1])
   \<and> coerceDate utc_env [Some 5] (JObj None (JNum (Fin 7))) = Inr (JDate 1, [Some 5, Some 7])
   \<and> coerceDate utc_env [Some 5] (JObj None (JDate 0)) = Inl TypeError"
proof -
  have fl: "\<lfloor>3 / 2 :: rat\<rfloor> = 1" by (simp add: floor_rat_numeral_div)
  have a: "coerceDate utc_env [Some 5] (JNum NaN) = Inr (JNull, [Some 5])"
    using coerceDate_spec[of utc_env "[Some 5]" "JNum NaN"] by simp
  have b: "coerceDate utc_env [Some 5] (JStr ''2025-01-15T00:00:00.000Z'')
       = Inr (JDate 1, [Some 5, Some 1736899200000])"
    using coerceDate_spec[of utc_env "[Some 5]" _ _ _ _ "''2025-01-15T00:00:00.000Z''"]
    by (simp add: utc_env_def)
  have c: "coerceDate utc_env [Some 5] (JStr ''tomorrow'') = Inr (JDate 1, [Some 5, None])"
    using coerceDate_spec[of utc_env "[Some 5]" _ _ _ _ "''tomorrow''"]
    by (simp add: utc_env_def)
  have d: "coerceDate utc_env [Some 5] (JNum (Fin (3 / 2))) = Inr (JDate 1, [Some 5, Some 1])"
    using coerceDate_spec[of utc_env "[Some 5]" _ _ _ _ _ "Fin (3 / 2)"]
    by (simp add: TimeClip_num_def fl)
  have f: "coerceDate utc_env [Some 5] (JObj None (JNum (Fin 7))) = Inr (JDate 1, [Some 5, Some 7])"
    using coerceDate_spec[where e = utc_env and h = "[Some 5]" and p = "JNum (Fin 7)"]
    by (simp add: TimeClip_num_def prim_to_number_def)
  have g: "coerceDate utc_env [Some 5] (JObj None (JDate 0)) = Inl TypeError"
    using coerceDate_spec[where e = utc_env and h = "[Some 5]" and p = "JDate 0"]
    by simp
  from a b c d f g show ?thesis by blast
qed

subsection \<open>Due-ness by \<^verbatim>\<open>nextDueAt\<close>\<close>

lemma coerceDate_heap:
  assumes "coerceDate e h v = Inr (r, h1)" and "b < length h"
  shows "h1 ! b = h ! b"
proof -
  have "h1 = h \<or> (\<exists>tv. h1 = h @ [tv])"
    using assms(1)
    by (auto simp: coerceDate_def new_Date_def split: if_splits jsval.splits option.splits sum.splits)
  with assms(2) show ?thesis by (auto simp: nth_append)
qed

lemma js_ge_dates:
  "js_ge e h (JDate b) (JDate a) =
     Inr (case (h ! b, h ! a) of (Some n, Some d) \<Rightarrow> d \<le> n | _ \<Rightarrow> False)"
  by (auto simp: js_ge_def ToPrimitive_def prim_to_number_def num_of_timevalue_def
           split: option.splits)

lemma isQuestDue_inactive: "isActive q = JBool False \<Longrightarrow> isQuestDue e h q now = Inr (JBool False)"
  by (simp add: isQuestDue_def Let_def split: prod.splits)

lemma isQuestDue_nextDueAt:
  assumes "isActive q \<noteq> JBool False" and "ToBoolean (nextDueAt q)"
    and "coerceDate e h (nextDueAt q) = Inr (JDate a, h1)"
    and "b < length h"
  shows "isQuestDue e h q (JDate b) =
           Inr (JBool (case (h ! b, h1 ! a) of (Some n, Some d) \<Rightarrow> d \<le> n | _ \<Rightarrow> False))"
  using assms coerceDate_heap[OF assms(3,4)]
  by (simp add: isQuestDue_def Let_def js_ge_dates)

text \<open>
  Claim C2. A quest whose \<open>isActive\<close> is \<^verbatim>\<open>false\<close> is not due, whatever its other fields
  and whatever \<open>now\<close> is. Otherwise, when \<open>nextDueAt\<close> is set and coerces to a valid Date of
  time value \<open>due\<close>, and \<open>now\<close> is a Date of time value \<open>n\<close>, the quest is due exactly when
  \<open>due \<le> n\<close>; so a quest due at \<open>n\<close> is due at every later instant.
\<close>

theorem isQuestDue_nextDueAt_spec:
  "(isActive q = JBool False \<longrightarrow> isQuestDue e h q now = Inr (JBool False))
   \<and> (isActive q \<noteq> JBool False \<and> ToBoolean (nextDueAt q)
        \<and> coerceDate e h (nextDueAt q) = Inr (JDate a, h1) \<and> h1 ! a = Some due
        \<longrightarrow>
          (\<forall>b n. b < length h \<and> h ! b = Some n \<longrightarrow>
             isQuestDue e h q (JDate b) = Inr (JBool (due \<le> n)))
        \<and> (\<forall>b b' n n'. b < length h \<and> h ! b = Some n \<and> b' < length h \<and> h ! b' = Some n'
               \<and> n \<le> n' \<and> isQuestDue e h q (JDate b) = Inr (JBool True)
             \<longrightarrow> isQuestDue e h q (JDate b') = Inr (JBool True)))"
proof -
  have one: "isActive q = JBool False \<longrightarrow> isQuestDue e h q now = Inr (JBool False)"
    using isQuestDue_inactive by blast
  {
    assume A: "isActive q \<noteq> JBool False" "ToBoolean (nextDueAt q)"
      "coerceDate e h (nextDueAt q) = Inr (JDate a, h1)" "h1 ! a = Some due"
    have eq: "isQuestDue e h q (JDate b) = Inr (JBool (due \<le> n))"
      if "b < length h" "h ! b = Some n" for b n
      using isQuestDue_nextDueAt[OF A(1,2,3) that(1)] A(4) that(2) by simp
    have mono: "isQuestDue e h q (JDate b') = Inr (JBool True)"
      if "b < length h" "h ! b = Some n" "b' < length h" "h ! b' = Some n'" "n \<le> n'"
        "isQuestDue e h q (JDate b) = Inr (JBool True)" for b b' n n'
    proof -
      from eq[OF that(1,2)] that(6) have "due \<le> n" by simp
      with that(5) have "due \<le> n'" by simp
      with eq[OF that(3,4)] show ?thesis by simp
    qed
    from eq mono have "(\<forall>b n. b < length h \<and> h ! b = Some n \<longrightarrow>
             isQuestDue e h q (JDate b) = Inr (JBool (due \<le> n)))
        \<and> (\<forall>b b' n n'. b < length h \<and> h ! b = Some n \<and> b' < length h \<and> h ! b' = Some n'
               \<and> n \<le> n' \<and> isQuestDue e h q (JDate b) = Inr (JBool True)
             \<longrightarrow> isQuestDue e h q (JDate b') = Inr (JBool True))"
      by blast
  }
  with one show ?thesis by blast
qed

theorem isQuestDue_nextDueAt_spec_witness:
  "isQuestDue utc_env [Some 100, Some 250, Some 50]
      (empty_quest\<lparr>isActive := JBool False, nextDueAt := JDate 0\<rparr>) (JDate 1) = Inr (JBool False)
   \<and> isQuestDue utc_env [Some 100, Some 250, Some 50]
      (empty_quest\<lparr>nextDueAt := JDate 0\<rparr>) (JDate 1) = Inr (JBool True)
   \<and> isQuestDue utc_env [Some 100, Some 250, Some 50]
      (empty_quest\<lparr>nextDueAt := JDate 0\<rparr>) (JDate 2) = Inr (JBool False)"
proof -
  let ?h = "[Some 100, Some 250, Some (50::int)]"
  let ?q = "empty_quest\<lparr>nextDueAt := JDate 0\<rparr>"
  note T = isQuestDue_nextDueAt_spec[of ?q utc_env ?h _ 0 ?h 100]
  have pre: "isActive ?q \<noteq> JBool False \<and> ToBoolean (nextDueAt ?q)
        \<and> coerceDate utc_env ?h (nextDueAt ?q) = Inr (JDate 0, ?h) \<and> ?h ! 0 = Some 100"
    by (simp add: empty_quest_def coerceDate_def)
  from T pre have all: "\<forall>b n. b < length ?h \<and> ?h ! b = Some n \<longrightarrow>
             isQuestDue utc_env ?h ?q (JDate b) = Inr (JBool (100 \<le> n))"
    by blast
  have a: "isQuestDue utc_env ?h (empty_quest\<lparr>isActive := JBool False, nextDueAt := JDate 0\<rparr>)
      (JDate 1) = Inr (JBool False)"
    using isQuestDue_nextDueAt_spec[of "empty_quest\<lparr>isActive := JBool False, nextDueAt := JDate 0\<rparr>"
        utc_env ?h "JDate 1"]
    by simp
  have b: "isQuestDue utc_env ?h ?q (JDate 1) = Inr (JBool True)"
    using all[rule_format, of 1 250] by simp
  have c: "isQuestDue utc_env ?h ?q (JDate 2) = Inr (JBool False)"
    using all[rule_format, of 2 50] by simp
  from a b c show ?thesis by blast
qed

text \<open>
  Claim C10. For an active quest whose \<open>nextDueAt\<close> is truthy but coerces to \<^verbatim>\<open>null\<close> or to
  an Invalid Date, and \<open>now\<close> a Date: \<^verbatim>\<open>isQuestDue\<close> returns a falsy value and raises
  nothing, and the result does not depend on \<open>lastCompletedAt\<close>, \<open>frequencyType\<close> or
  \<open>frequency\<close>, the fields the legacy branch reads.
\<close>

theorem isQuestDue_invalid_nextDueAt:
  assumes "isActive q \<noteq> JBool False" and "ToBoolean (nextDueAt q)"
    and "coerceDate e h (nextDueAt q) = Inr (r, h1)"
    and "r = JNull \<or> (\<exists>a. r = JDate a \<and> h1 ! a = None)"
  shows "(\<exists>v. isQuestDue e h q (JDate b) = Inr v \<and> \<not> ToBoolean v)
       \<and> (\<forall>lc ft f. isQuestDue e h (q\<lparr>lastCompletedAt := lc, frequencyType := ft, frequency := f\<rparr>)
                        (JDate b)
                    = isQuestDue e h q (JDate b))"
proof -
  have ge: "js_ge e h1 (JDate b) (JDate a) = Inr False" if "h1 ! a = None" for a
    using that by (simp add: js_ge_dates split: option.splits)
  have res: "isQuestDue e h q (JDate b) = Inr (if r = JNull then JNull else JBool False)"
    using assms ge by (auto simp: isQuestDue_def Let_def)
  have indep: "isQuestDue e h (q\<lparr>lastCompletedAt := lc, frequencyType := ft, frequency := f\<rparr>) (JDate b)
                 = isQuestDue e h q (JDate b)" for lc ft f
    using assms(1,2) by (simp add: isQuestDue_def Let_def)
  from res indep show ?thesis by auto
qed

theorem isQuestDue_invalid_nextDueAt_witness:
  "isQuestDue utc_env [Some 100] (empty_quest\<lparr>nextDueAt := JStr ''soon''\<rparr>) (JDate 0)
     = Inr (JBool False)
   \<and> isQuestDue utc_env [Some 100] (empty_quest\<lparr>nextDueAt := JObj (Some JNull) JNull\<rparr>) (JDate 0)
     = Inr JNull
   \<and> isQuestDue utc_env [Some 100]
       (empty_quest\<lparr>nextDueAt := JStr ''soon'', frequencyType := JStr ''daily''\<rparr>) (JDate 0)
     = Inr (JBool False)"
proof -
  let ?q1 = "empty_quest\<lparr>nextDueAt := JStr ''soon''\<rparr>"
  let ?q2 = "empty_quest\<lparr>nextDueAt := JObj (Some JNull) JNull\<rparr>"
  have c1: "coerceDate utc_env [Some 100] (nextDueAt ?q1) = Inr (JDate 1, [Some 100, None])"
    by (simp add: empty_quest_def coerceDate_string utc_env_def)
  have c2: "coerceDate utc_env [Some 100] (nextDueAt ?q2) = Inr (JNull, [Some 100])"
    by (simp add: empty_quest_def coerceDate_toDate)
  have p1: "isActive ?q1 \<noteq> JBool False" "ToBoolean (nextDueAt ?q1)"
    by (simp_all add: empty_quest_def)
  have p2: "isActive ?q2 \<noteq> JBool False" "ToBoolean (nextDueAt ?q2)"
    by (simp_all add: empty_quest_def)
  have r1: "JDate 1 = JNull \<or> (\<exists>a. JDate 1 = JDate a \<and> [Some (100::int), None] ! a = None)"
    by simp
  have r2: "JNull = JNull \<or> (\<exists>a. JNull = JDate a \<and> [Some (100::int)] ! a = None)"
    by simp
  note T1 = isQuestDue_invalid_nextDueAt[OF p1 c1 r1, of 0]
  note T2 = isQuestDue_invalid_nextDueAt[OF p2 c2 r2, of 0]
  have a: "isQuestDue utc_env [Some 100] ?q1 (JDate 0) = Inr (JBool False)"
    using c1 by (simp add: isQuestDue_def Let_def empty_quest_def js_ge_dates)
  have b: "isQuestDue utc_env [Some 100] ?q2 (JDate 0) = Inr JNull"
    using c2 by (simp add: isQuestDue_def Let_def empty_quest_def)
  have "isQuestDue utc_env [Some 100]
          (?q1\<lparr>lastCompletedAt := JUndefined, frequencyType := JStr ''daily'', frequency := JUndefined\<rparr>)
          (JDate 0) = isQuestDue utc_env [Some 100] ?q1 (JDate 0)"
    using T1 by blast
  then have c: "isQuestDue utc_env [Some 100]
       (empty_quest\<lparr>nextDueAt := JStr ''soon'', frequencyType := JStr ''daily''\<rparr>) (JDate 0)
     = Inr (JBool False)"
    using a by (simp add: empty_quest_def)
  from T2 a b c show ?thesis by blast
qed

subsection \<open>Due-ness without \<^verbatim>\<open>nextDueAt\<close>\<close>








subsection \<open>The default frequency\<close>

text \<open>
  Claim C8 as stated fails. A document with neither \<open>frequencyType\<close> nor \<open>frequency\<close>,
  completed on 2025-01-01 and with no \<open>nextDueAt\<close>, is loaded by \<^verbatim>\<open>normalizeQuestDoc\<close>
  with the frequency \<open>daily\<close>, and \<^verbatim>\<open>isQuestDue\<close> finds it due on 2025-01-02.
\<close>

theorem default_frequency_counterexample:
  "\<exists>q'. normalizeQuestDoc utc_env [Some 1735732800000, Some 1735819200000]
            (empty_quest\<lparr>lastCompletedAt := JDate 0\<rparr>)
          = Inr (q', [Some 1735732800000, Some 1735819200000])
      \<and> frequencyType q' = JStr ''daily''
      \<and> nextDueAt q' = JNull
      \<and> lastCompletedAt q' = JDate 0
      \<and> isQuestDue utc_env [Some 1735732800000, Some 1735819200000] q' (JDate 1)
          = Inr (JBool True)"
  by (simp add: normalizeQuestDoc_def empty_quest_def js_or_def nullish_def coerceDate_def
      isQuestDue_def Let_def startOfDay_def Date_value_def setHours_zero_def LocalTime_def
      UTC_def utc_env_def Day_def msPerDay_def MakeDate_def MakeTime_def TimeClip_def
      tv_greater_def)

text \<open>
  Claim C8, amended. \<^verbatim>\<open>isQuestDue\<close> itself falls back to \<open>once\<close>: an active quest object
  with neither \<open>frequencyType\<close> nor \<open>frequency\<close>, no \<open>nextDueAt\<close> and a recorded
  \<open>lastCompletedAt\<close> is not due. \<^verbatim>\<open>normalizeQuestDoc\<close>, which loads every quest document,
  defaults differently: a document with neither field gets the frequency \<open>daily\<close>.
\<close>

theorem default_frequency_spec:
  assumes "\<not> ToBoolean (frequencyType q)" and "\<not> ToBoolean (frequency q)"
  shows "(isActive q \<noteq> JBool False \<and> \<not> ToBoolean (nextDueAt q) \<and> ToBoolean (lastCompletedAt q)
            \<longrightarrow> resolved_frequency q = JStr ''once''
              \<and> isQuestDue e h q now = Inr (JBool False))
       \<and> (\<forall>q' h'. normalizeQuestDoc e h q = Inr (q', h') \<longrightarrow> frequencyType q' = JStr ''daily'')"
proof -
  have f: "frequency q \<noteq> JStr ''once''" using assms(2) by auto
  have a: "isActive q \<noteq> JBool False \<and> \<not> ToBoolean (nextDueAt q) \<and> ToBoolean (lastCompletedAt q)
            \<longrightarrow> resolved_frequency q = JStr ''once''
              \<and> isQuestDue e h q now = Inr (JBool False)"
    using assms by (simp add: isQuestDue_def resolved_frequency_def js_or_def Let_def split: prod.splits)
  have b: "frequencyType q' = JStr ''daily''" if "normalizeQuestDoc e h q = Inr (q', h')" for q' h'
    using that assms f
    by (auto simp: normalizeQuestDoc_def js_or_def Let_def split: sum.splits prod.splits if_splits)
  from a b show ?thesis by blast
qed

theorem default_frequency_spec_witness:
  "isQuestDue utc_env [Some 1735732800000, Some 1735819200000]
      (empty_quest\<lparr>lastCompletedAt := JDate 0\<rparr>) (JDate 1) = Inr (JBool False)
   \<and> (\<exists>q' h'. normalizeQuestDoc utc_env [Some 1735732800000, Some 1735819200000]
                 (empty_quest\<lparr>lastCompletedAt := JDate 0\<rparr>) = Inr (q', h')
         \<and> frequencyType q' = JStr ''daily'')"
proof -
  let ?q = "empty_quest\<lparr>lastCompletedAt := JDate 0\<rparr>"
  let ?h = "[Some 1735732800000, Some (1735819200000::int)]"
  have p: "\<not> ToBoolean (frequencyType ?q)" "\<not> ToBoolean (frequency ?q)"
    by (simp_all add: empty_quest_def)
  have pre: "isActive ?q \<noteq> JBool False \<and> \<not> ToBoolean (nextDueAt ?q) \<and> ToBoolean (lastCompletedAt ?q)"
    by (simp add: empty_quest_def)
  have "\<exists>q' h'. normalizeQuestDoc utc_env ?h ?q = Inr (q', h')"
    by (simp add: normalizeQuestDoc_def empty_quest_def js_or_def coerceDate_def Let_def)
  then obtain q' h' where n: "normalizeQuestDoc utc_env ?h ?q = Inr (q', h')"
    by blast
  from default_frequency_spec[OF p, of utc_env ?h "JDate 1"] pre n
  show ?thesis by blast
qed

subsection \<open>The calendar\<close>

lemma MonthFromTime_range: "0 \<le> MonthFromTime t \<and> MonthFromTime t \<le> 11"
  by (simp add: MonthFromTime_def Let_def)

lemma days_before_month:
  "DaysBeforeMonth (MonthFromTime t) (InLeapYear t) + DateFromTime t - 1 = DayWithinYear t"
  by (simp add: MonthFromTime_def DateFromTime_def DaysBeforeMonth_def Let_def)

lemma MakeDay_of_fields:
  "MakeDay (YearFromTime t) (MonthFromTime t) (DateFromTime t + n) = Day t + n"
proof -
  have m: "MonthFromTime t div 12 = 0" "MonthFromTime t mod 12 = MonthFromTime t"
    using MonthFromTime_range[of t] by simp_all
  have "MakeDay (YearFromTime t) (MonthFromTime t) (DateFromTime t + n)
          = DayFromYear (YearFromTime t)
            + (DaysBeforeMonth (MonthFromTime t) (InLeapYear t) + DateFromTime t - 1) + n"
    by (simp add: MakeDay_def m InLeapYear_def)
  also have "\<dots> = Day t + n"
    by (simp only: days_before_month DayWithinYear_def)
  finally show ?thesis .
qed

lemma setDate_getDate:
  "setDate e (num_add (getDate e (Some t)) n) (Some t) = TimeClip (add_local_days e n t)"
  by (simp add: setDate_def getDate_def num_add_def Let_def MakeDay_of_fields
      add_local_days_def local_day_def)

lemma MakeDay_first_of_month: "MakeDay y m dt = first_of_month y m + (dt - 1)"
  by (simp add: MakeDay_def first_of_month_def Let_def)

lemma setMonth_getMonth:
  "setMonth e (num_add (getMonth e (Some t)) n) (Some t) = TimeClip (add_local_months e n t)"
  by (simp add: setMonth_def getMonth_def num_add_def Let_def MakeDay_first_of_month
      add_local_months_def)

lemma setDate_invalid: "setDate e (num_add (getDate e None) n) None = None"
  by (simp add: setDate_def)

lemma setMonth_invalid: "setMonth e (num_add (getMonth e None) n) None = None"
  by (simp add: setMonth_def)

subsection \<open>The year of a day number\<close>

lemma div_bounds: "0 < (m::int) \<Longrightarrow> m * (x div m) \<le> x \<and> x < m * (x div m) + m"
  using minus_mod_eq_mult_div[of x m, symmetric] pos_mod_bound[of m x] pos_mod_sign[of m x]
  by linarith

lemma div_succ:
  fixes x m :: int
  assumes "0 < m"
  shows "(x + 1) div m = x div m + (if (x + 1) mod m = 0 then 1 else 0)"
proof (cases "(x + 1) mod m = 0")
  case True
  define q where "q = (x + 1) div m"
  have "x + 1 = m * q" using True mult_div_mod_eq[of m "x + 1"] by (simp add: q_def)
  then have eq: "x = m * (q - 1) + (m - 1)" by (simp add: algebra_simps)
  have "x div m = q - 1"
    by (rule int_div_pos_eq[of x m "q - 1" "m - 1"]) (use assms eq in simp_all)
  with True show ?thesis by (simp add: q_def)
next
  case False
  define q where "q = (x + 1) div m"
  define r where "r = (x + 1) mod m"
  have r: "0 < r" "r < m"
    using False assms pos_mod_sign[of m "x + 1"] pos_mod_bound[of m "x + 1"]
    by (simp_all add: r_def less_le)
  have "x + 1 = m * q + r" by (simp add: q_def r_def)
  then have eq: "x = m * q + (r - 1)" by simp
  have "x div m = q"
    by (rule int_div_pos_eq[of x m q "r - 1"]) (use r eq in simp_all)
  with False show ?thesis by (simp add: q_def)
qed

lemma leap_mods:
  fixes y :: int
  shows "(y - 1968) mod 4 = y mod 4" "(y - 1900) mod 100 = y mod 100"
    "(y - 1600) mod 400 = y mod 400"
proof -
  have "(y + 4 * (- 492)) mod 4 = y mod 4" by (rule mod_mult_self2)
  then show "(y - 1968) mod 4 = y mod 4" by simp
  have "(y + 100 * (- 19)) mod 100 = y mod 100" by (rule mod_mult_self2)
  then show "(y - 1900) mod 100 = y mod 100" by simp
  have "(y + 400 * (- 4)) mod 400 = y mod 400" by (rule mod_mult_self2)
  then show "(y - 1600) mod 400 = y mod 400" by simp
qed

lemma leap_divisibility:
  fixes y :: int
  shows "y mod 100 = 0 \<Longrightarrow> y mod 4 = 0" "y mod 400 = 0 \<Longrightarrow> y mod 100 = 0"
proof -
  have a: "(4::int) dvd 100" "(100::int) dvd 400" by simp_all
  show "y mod 100 = 0 \<Longrightarrow> y mod 4 = 0"
    using a(1) by (meson dvd_trans mod_eq_0_iff_dvd)
  show "y mod 400 = 0 \<Longrightarrow> y mod 100 = 0"
    using a(2) by (meson dvd_trans mod_eq_0_iff_dvd)
qed

lemma DayFromYear_step: "DayFromYear (y + 1) = DayFromYear y + DaysInYear y"
proof -
  have e: "y + 1 - 1969 = (y - 1969) + 1" "y + 1 - 1901 = (y - 1901) + 1"
    "y + 1 - 1601 = (y - 1601) + 1" "y - 1969 + 1 = y - 1968" "y - 1901 + 1 = y - 1900"
    "y - 1601 + 1 = y - 1600"
    by simp_all
  have a: "(y + 1 - 1969) div 4 = (y - 1969) div 4 + (if y mod 4 = 0 then 1 else 0)"
    unfolding e(1) using div_succ[of 4 "y - 1969"] by (simp add: e leap_mods)
  have b: "(y + 1 - 1901) div 100 = (y - 1901) div 100 + (if y mod 100 = 0 then 1 else 0)"
    unfolding e(2) using div_succ[of 100 "y - 1901"] by (simp add: e leap_mods)
  have c: "(y + 1 - 1601) div 400 = (y - 1601) div 400 + (if y mod 400 = 0 then 1 else 0)"
    unfolding e(3) using div_succ[of 400 "y - 1601"] by (simp add: e leap_mods)
  have "DayFromYear (y + 1) = 365 * (y + 1 - 1970) + (y + 1 - 1969) div 4
          - (y + 1 - 1901) div 100 + (y + 1 - 1601) div 400"
    by (simp only: DayFromYear_def)
  also have "\<dots> = DayFromYear y + 365 + (if y mod 4 = 0 then 1 else 0)
          - (if y mod 100 = 0 then 1 else 0) + (if y mod 400 = 0 then 1 else 0)"
    by (simp only: a b c DayFromYear_def) (simp add: algebra_simps)
  also have "\<dots> = DayFromYear y + DaysInYear y"
    using leap_divisibility[of y] by (auto simp: DaysInYear_def)
  finally show ?thesis .
qed

lemma DaysInYear_pos: "365 \<le> DaysInYear y" "DaysInYear y \<le> 366"
  by (simp_all add: DaysInYear_def)

lemma DayFromYear_mono: "y \<le> z \<Longrightarrow> DayFromYear y \<le> DayFromYear z"
proof (induction z rule: int_ge_induct)
  case base
  show ?case by simp
next
  case (step i)
  then show ?case using DayFromYear_step[of i] DaysInYear_pos(1)[of i] by simp
qed

lemma year_estimate_lower:
  fixes k d :: int
  assumes "146097 * k \<le> 400 * d"
  shows "DayFromYear (1970 + k - 1) \<le> d"
proof -
  define a where "a = k div 4"
  define b where "b = (k + 68) div 100"
  define c where "c = (k + 368) div 400"
  have A: "4 * a \<le> k" unfolding a_def using div_bounds[of 4 k] by simp
  have B: "k + 68 < 100 * b + 100" unfolding b_def using div_bounds[of 100 "k + 68"] by simp
  have C: "400 * c \<le> k + 368" unfolding c_def using div_bounds[of 400 "k + 368"] by simp
  have D: "DayFromYear (1970 + k - 1) = 365 * (k - 1) + a - b + c"
    unfolding DayFromYear_def a_def b_def c_def by (simp add: algebra_simps)
  have 1: "400 * a \<le> 100 * k" using A by simp
  have 2: "4 * k - 128 < 400 * b" using B by simp
  have "400 * (365 * (k - 1) + a - b + c) = 146000 * k - 146000 + 400 * a - 400 * b + 400 * c"
    by (simp add: algebra_simps)
  also have "\<dots> \<le> 146000 * k - 146000 + 100 * k - (4 * k - 128) + (k + 368)"
    using 1 2 C by simp
  also have "\<dots> = 146097 * k - 145504" by simp
  also have "\<dots> \<le> 400 * d" using assms by simp
  finally show ?thesis unfolding D by simp
qed

lemma year_estimate_upper:
  fixes k d :: int
  assumes "400 * d < 146097 * (k + 1)"
  shows "d < DayFromYear (1970 + k + 2)"
proof -
  define a where "a = (k + 3) div 4"
  define b where "b = (k + 71) div 100"
  define c where "c = (k + 371) div 400"
  have A: "k + 3 < 4 * a + 4" unfolding a_def using div_bounds[of 4 "k + 3"] by simp
  have B: "100 * b \<le> k + 71" unfolding b_def using div_bounds[of 100 "k + 71"] by simp
  have C: "k + 371 < 400 * c + 400" unfolding c_def using div_bounds[of 400 "k + 371"] by simp
  have D: "DayFromYear (1970 + k + 2) = 365 * (k + 2) + a - b + c"
    unfolding DayFromYear_def a_def b_def c_def by (simp add: algebra_simps)
  have 1: "100 * k - 100 < 400 * a" using A by simp
  have 2: "400 * b \<le> 4 * k + 284" using B by simp
  have 3: "k - 29 < 400 * c" using C by simp
  have "400 * d < 146097 * k + 146097" using assms by simp
  also have "\<dots> \<le> 146000 * k + 292000 + (100 * k - 100) - (4 * k + 284) + (k - 29)"
    by simp
  also have "\<dots> < 146000 * k + 292000 + 400 * a - 400 * b + 400 * c"
    using 1 2 3 by simp
  also have "\<dots> = 400 * (365 * (k + 2) + a - b + c)" by (simp add: algebra_simps)
  finally show ?thesis unfolding D by simp
qed

lemma YearFromDay_bounds:
  "DayFromYear (YearFromDay d) \<le> d \<and> d < DayFromYear (YearFromDay d + 1)"
proof -
  define k where "k = (400 * d) div 146097"
  have k1: "146097 * k \<le> 400 * d" and k2: "400 * d < 146097 * (k + 1)"
    unfolding k_def using div_bounds[of 146097 "400 * d"] by (simp_all add: algebra_simps)
  have lo: "DayFromYear (1970 + k - 1) \<le> d" by (rule year_estimate_lower[OF k1])
  have hi: "d < DayFromYear (1970 + k + 2)" by (rule year_estimate_upper[OF k2])
  have e: "1970 + k - 1 + 1 = 1970 + k" "1970 + k + 1 + 1 = 1970 + k + 2" by simp_all
  show ?thesis
    using lo hi unfolding YearFromDay_def k_def[symmetric] Let_def
    by (auto simp: e)
qed

text \<open>\<open>YearFromDay\<close> is the year function of ECMA-262: the largest year that begins on or
  before the day.\<close>

lemma YearFromDay_largest:
  "DayFromYear (YearFromDay d) \<le> d \<and> (\<forall>y. DayFromYear y \<le> d \<longrightarrow> y \<le> YearFromDay d)"
proof -
  have "y \<le> YearFromDay d" if "DayFromYear y \<le> d" for y
  proof (rule ccontr)
    assume "\<not> y \<le> YearFromDay d"
    then have "YearFromDay d + 1 \<le> y" by simp
    then have "DayFromYear (YearFromDay d + 1) \<le> DayFromYear y" by (rule DayFromYear_mono)
    with that YearFromDay_bounds[of d] show False by simp
  qed
  with YearFromDay_bounds[of d] show ?thesis by blast
qed

lemma DayWithinYear_range:
  "0 \<le> DayWithinYear t \<and> DayWithinYear t < DaysInYear (YearFromTime t)"
  using YearFromDay_bounds[of "Day t"] DayFromYear_step[of "YearFromDay (Day t)"]
  by (simp add: DayWithinYear_def YearFromTime_def)

lemma DateFromTime_range: "1 \<le> DateFromTime t \<and> DateFromTime t \<le> 31"
proof -
  have L: "InLeapYear t = 0 \<or> InLeapYear t = 1" by (simp add: InLeapYear_def)
  have R: "DayWithinYear t < 365 + InLeapYear t"
    using DayWithinYear_range[of t] DaysInYear_pos[of "YearFromTime t"]
    by (auto simp: InLeapYear_def DaysInYear_def split: if_splits)
  show ?thesis
    using L R DayWithinYear_range[of t]
    by (auto simp: DateFromTime_def MonthFromTime_def Let_def)
qed

lemma YearFromDay_unique:
  assumes "DayFromYear y \<le> d" and "d < DayFromYear (y + 1)"
  shows "YearFromDay d = y"
proof -
  have le: "y \<le> YearFromDay d" using YearFromDay_largest[of d] assms(1) by blast
  have "\<not> y < YearFromDay d"
  proof
    assume "y < YearFromDay d"
    then have "y + 1 \<le> YearFromDay d" by simp
    then have "DayFromYear (y + 1) \<le> DayFromYear (YearFromDay d)" by (rule DayFromYear_mono)
    with YearFromDay_bounds[of d] assms(2) show False by simp
  qed
  with le show ?thesis by simp
qed

lemma Day_MakeDate:
  assumes "0 \<le> tm" and "tm < msPerDay"
  shows "Day (MakeDate D tm) = D" "TimeWithinDay (MakeDate D tm) = tm"
proof -
  have "(D * 86400000 + tm) div 86400000 = D"
    by (rule int_div_pos_eq[of _ _ _ tm]) (use assms in \<open>simp_all add: msPerDay_def\<close>)
  then show "Day (MakeDate D tm) = D" by (simp add: Day_def MakeDate_def msPerDay_def)
  have "(D * 86400000 + tm) mod 86400000 = tm"
    by (rule int_mod_pos_eq[of _ _ D]) (use assms in \<open>simp_all add: msPerDay_def\<close>)
  then show "TimeWithinDay (MakeDate D tm) = tm"
    by (simp add: TimeWithinDay_def MakeDate_def msPerDay_def)
qed

text \<open>\<open>MakeDay\<close> is the day with the given fields, as ECMA-262 defines it: for a day of
  month that every month has, the year, month and day of month of the result are the
  ones asked for, months beyond December carrying into the year.\<close>

lemma MakeDay_fields:
  assumes "1 \<le> dt" and "dt \<le> 28" and "0 \<le> tm" and "tm < msPerDay"
  shows "YearFromTime (MakeDate (MakeDay y m dt) tm) = y + m div 12
       \<and> MonthFromTime (MakeDate (MakeDay y m dt) tm) = m mod 12
       \<and> DateFromTime (MakeDate (MakeDay y m dt) tm) = dt"
proof -
  define ym where "ym = y + m div 12"
  define mn where "mn = m mod 12"
  define L :: int where "L = (if DaysInYear ym = 366 then 1 else 0)"
  define w where "w = DaysBeforeMonth mn L + dt - 1"
  define t where "t = MakeDate (MakeDay y m dt) tm"
  have mn: "mn = 0 \<or> mn = 1 \<or> mn = 2 \<or> mn = 3 \<or> mn = 4 \<or> mn = 5 \<or> mn = 6 \<or> mn = 7
            \<or> mn = 8 \<or> mn = 9 \<or> mn = 10 \<or> mn = 11"
  proof -
    have "0 \<le> mn" "mn < 12" by (simp_all add: mn_def)
    then show ?thesis by arith
  qed
  have L: "L = 0 \<or> L = 1" by (simp add: L_def)
  have diy: "DaysInYear ym = 365 + L" by (simp add: L_def DaysInYear_def)
  have d: "Day t = DayFromYear ym + w"
    unfolding t_def Day_MakeDate(1)[OF assms(3,4)]
    by (simp add: MakeDay_def Let_def ym_def mn_def L_def w_def)
  have L01: "0 \<le> L" "L \<le> 1" by (simp_all add: L_def)
  have w: "0 \<le> w" "w < 365 + L"
    using mn L01 assms(1,2) unfolding w_def
    by (elim disjE; simp add: DaysBeforeMonth_def)+
  have yr: "YearFromTime t = ym"
    unfolding YearFromTime_def d
    by (rule YearFromDay_unique) (use w diy DayFromYear_step[of ym] in simp_all)
  have dwy: "DayWithinYear t = w" by (simp add: DayWithinYear_def yr d)
  have leap: "InLeapYear t = L" by (simp add: InLeapYear_def yr L_def)
  have mo: "MonthFromTime t = mn"
    using mn L01 assms(1,2) unfolding MonthFromTime_def dwy leap w_def Let_def
    by (elim disjE; simp add: DaysBeforeMonth_def)
  have da: "DateFromTime t = dt"
    using mn unfolding DateFromTime_def mo dwy leap w_def Let_def
    by (elim disjE; simp add: DaysBeforeMonth_def)
  from yr mo da show ?thesis by (simp add: t_def ym_def mn_def)
qed

lemma advanced_month_fields:
  assumes "DateFromTime lt \<le> 28"
  shows "(let r = MakeDate (first_of_month (YearFromTime lt) (MonthFromTime lt + n)
                            + (DateFromTime lt - 1))
                         (TimeWithinDay lt)
          in YearFromTime r = YearFromTime lt + (MonthFromTime lt + n) div 12
           \<and> MonthFromTime r = (MonthFromTime lt + n) mod 12
           \<and> DateFromTime r = DateFromTime lt
           \<and> TimeWithinDay r = TimeWithinDay lt)"
proof -
  have tm: "0 \<le> TimeWithinDay lt" "TimeWithinDay lt < msPerDay"
    by (simp_all add: TimeWithinDay_def msPerDay_def)
  have dt: "1 \<le> DateFromTime lt" using DateFromTime_range[of lt] by simp
  show ?thesis
    using MakeDay_fields[OF dt assms tm, of "YearFromTime lt" "MonthFromTime lt + n"]
      Day_MakeDate(2)[OF tm]
    by (simp add: MakeDay_first_of_month Let_def)
qed

subsection \<open>Sample dates and fixed-offset zones\<close>

lemma utc_LocalTime: "LocalTime utc_env t = t" "UTC utc_env t = t"
  by (simp_all add: LocalTime_def UTC_def utc_env_def)

lemma DayFromYear_2025: "DayFromYear 2025 = 20089" "DayFromYear 2026 = 20454"
  by (simp_all add: DayFromYear_def)

lemma YearFromDay_2025_a: "YearFromDay 20089 = 2025" "YearFromDay 20119 = 2025"
  by (simp_all add: YearFromDay_def DayFromYear_def)

lemma fields_2025_01_31:
  "YearFromTime 1738281600000 = 2025" "MonthFromTime 1738281600000 = 0"
  "DateFromTime 1738281600000 = 31" "TimeWithinDay 1738281600000 = 0"
proof -
  have d: "Day 1738281600000 = 20119" by (simp add: Day_def msPerDay_def)
  show y: "YearFromTime 1738281600000 = 2025"
    by (simp add: YearFromTime_def d YearFromDay_2025_a)
  have w: "DayWithinYear 1738281600000 = 30"
    by (simp add: DayWithinYear_def d y DayFromYear_2025)
  show m: "MonthFromTime 1738281600000 = 0"
    by (simp add: MonthFromTime_def w)
  show "DateFromTime 1738281600000 = 31"
    by (simp add: DateFromTime_def w m)
  show "TimeWithinDay 1738281600000 = 0"
    by (simp add: TimeWithinDay_def msPerDay_def)
qed

lemma first_of_month_2025_1: "first_of_month 2025 1 = 20120"
  by (simp add: first_of_month_def DayFromYear_2025 DaysBeforeMonth_def)

lemma fields_2025_01_01:
  "YearFromTime 1735689600000 = 2025" "MonthFromTime 1735689600000 = 0"
  "DateFromTime 1735689600000 = 1" "TimeWithinDay 1735689600000 = 0"
proof -
  have d: "Day 1735689600000 = 20089" by (simp add: Day_def msPerDay_def)
  show y: "YearFromTime 1735689600000 = 2025"
    by (simp add: YearFromTime_def d YearFromDay_2025_a)
  have w: "DayWithinYear 1735689600000 = 0"
    by (simp add: DayWithinYear_def d y DayFromYear_2025)
  show m: "MonthFromTime 1735689600000 = 0"
    by (simp add: MonthFromTime_def w)
  show "DateFromTime 1735689600000 = 1"
    by (simp add: DateFromTime_def w m)
  show "TimeWithinDay 1735689600000 = 0"
    by (simp add: TimeWithinDay_def msPerDay_def)
qed

lemma add_local_days_offset:
  "add_local_days e n t =
     t + n * msPerDay + (LocalTZA e t True - LocalTZA e (LocalTime e t + n * msPerDay) False)"
proof -
  define lt where "lt = LocalTime e t"
  have "MakeDate (Day lt + n) (TimeWithinDay lt) = lt + n * msPerDay"
    by (simp add: MakeDate_def Day_def TimeWithinDay_def algebra_simps)
  then have "add_local_days e n t = lt + n * msPerDay - LocalTZA e (lt + n * msPerDay) False"
    by (simp add: add_local_days_def local_day_def lt_def[symmetric] UTC_def)
  then show ?thesis by (simp add: lt_def LocalTime_def)
qed

lemma fixed_offset_add_days:
  assumes "\<forall>t b. LocalTZA e t b = c"
  shows "add_local_days e n t = t + n * msPerDay"
  using assms by (simp add: add_local_days_offset)

lemma getDueDateFromNow_weeks:
  "getDueDateFromNow e h (JStr ''weeks'') n fd =
     (case Date_value_default e h fd of Inl err \<Rightarrow> Inl err | Inr base \<Rightarrow>
        Inr (new_Date h (case base of None \<Rightarrow> None
                                   | Some t \<Rightarrow> TimeClip (t + n * 7 * msPerDay))))"
proof -
  have "n * 7 * 24 * 60 * 60 * 1000 = n * 7 * msPerDay" by (simp add: msPerDay_def)
  then show ?thesis
    by (simp only: getDueDateFromNow_def Let_def) (simp split: sum.splits)
qed

lemma getDueDateFromNow_days:
  "getDueDateFromNow e h (JStr ''days'') n fd =
     (case Date_value_default e h fd of Inl err \<Rightarrow> Inl err | Inr base \<Rightarrow>
        Inr (new_Date h (case base of None \<Rightarrow> None | Some t \<Rightarrow> TimeClip (t + n * msPerDay))))"
proof -
  have "n * 24 * 60 * 60 * 1000 = n * msPerDay" by (simp add: msPerDay_def)
  then show ?thesis
    by (simp only: getDueDateFromNow_def Let_def) (simp split: sum.splits)
qed

subsection \<open>The next due date\<close>

text \<open>
  Claim C4. For every interval \<open>n\<close> and every Date \<open>d\<close> (the object at \<open>a\<close>, of time value
  \<open>h ! a\<close>): \<open>once\<close> and any unrecognised type give a Date of the same time value;
  \<open>daily\<close> gives \<open>d\<close> moved by \<open>n\<close> local calendar days, \<open>weekly\<close> by \<open>7 * n\<close>, and \<open>monthly\<close>
  gives \<open>d\<close> with the local month advanced by \<open>n\<close>, the day of month running on when the
  target month is shorter. An Invalid Date stays invalid, and a result outside the Date
  range is an Invalid Date.
\<close>

theorem calculateNextDueAt_spec:
  "calculateNextDueAt e h (JStr ''once'') n (JDate a) = Inr (JDate (length h), h @ [h ! a])
   \<and> (ft \<noteq> JStr ''once'' \<and> ft \<noteq> JStr ''daily'' \<and> ft \<noteq> JStr ''weekly'' \<and> ft \<noteq> JStr ''monthly''
        \<longrightarrow> calculateNextDueAt e h ft n (JDate a) = Inr (JDate (length h), h @ [h ! a]))
   \<and> calculateNextDueAt e h (JStr ''daily'') n (JDate a)
        = Inr (JDate (length h),
               h @ [case h ! a of None \<Rightarrow> None | Some t \<Rightarrow> TimeClip (add_local_days e n t)])
   \<and> calculateNextDueAt e h (JStr ''weekly'') n (JDate a)
        = Inr (JDate (length h),
               h @ [case h ! a of None \<Rightarrow> None | Some t \<Rightarrow> TimeClip (add_local_days e (7 * n) t)])
   \<and> calculateNextDueAt e h (JStr ''monthly'') n (JDate a)
        = Inr (JDate (length h),
               h @ [case h ! a of None \<Rightarrow> None | Some t \<Rightarrow> TimeClip (add_local_months e n t)])"
proof -
  have dv: "Date_value_default e h (JDate a) = Inr (h ! a)"
    by (simp add: Date_value_default_def Date_value_def)
  have once: "calculateNextDueAt e h (JStr ''once'') n (JDate a) = Inr (JDate (length h), h @ [h ! a])"
    by (simp add: calculateNextDueAt_def dv new_Date_def)
  have other: "calculateNextDueAt e h ft n (JDate a) = Inr (JDate (length h), h @ [h ! a])"
    if "ft \<noteq> JStr ''once''" "ft \<noteq> JStr ''daily''" "ft \<noteq> JStr ''weekly''" "ft \<noteq> JStr ''monthly''"
    using that by (simp add: calculateNextDueAt_def dv new_Date_def)
  have daily: "calculateNextDueAt e h (JStr ''daily'') n (JDate a)
        = Inr (JDate (length h),
               h @ [case h ! a of None \<Rightarrow> None | Some t \<Rightarrow> TimeClip (add_local_days e n t)])"
    by (cases "h ! a")
       (simp_all add: calculateNextDueAt_def dv new_Date_def setDate_getDate setDate_invalid)
  have weekly: "calculateNextDueAt e h (JStr ''weekly'') n (JDate a)
        = Inr (JDate (length h),
               h @ [case h ! a of None \<Rightarrow> None | Some t \<Rightarrow> TimeClip (add_local_days e (7 * n) t)])"
    by (cases "h ! a")
       (simp_all add: calculateNextDueAt_def dv new_Date_def setDate_getDate setDate_invalid
          mult.commute)
  have monthly: "calculateNextDueAt e h (JStr ''monthly'') n (JDate a)
        = Inr (JDate (length h),
               h @ [case h ! a of None \<Rightarrow> None | Some t \<Rightarrow> TimeClip (add_local_months e n t)])"
    by (cases "h ! a")
       (simp_all add: calculateNextDueAt_def dv new_Date_def setMonth_getMonth setMonth_invalid)
  from once other daily weekly monthly show ?thesis by blast
qed

theorem calculateNextDueAt_spec_witness:
  "calculateNextDueAt utc_env [Some 1735689600000, Some 1738281600000] (JStr ''daily'') 2 (JDate 0)
     = Inr (JDate 2, [Some 1735689600000, Some 1738281600000, Some 1735862400000])
   \<and> calculateNextDueAt utc_env [Some 1735689600000, Some 1738281600000] (JStr ''weekly'') 1 (JDate 0)
     = Inr (JDate 2, [Some 1735689600000, Some 1738281600000, Some 1736294400000])
   \<and> calculateNextDueAt utc_env [Some 1735689600000, Some 1738281600000] (JStr ''monthly'') 1 (JDate 0)
     = Inr (JDate 2, [Some 1735689600000, Some 1738281600000, Some 1738368000000])
   \<and> calculateNextDueAt utc_env [Some 1735689600000, Some 1738281600000] (JStr ''monthly'') 1 (JDate 1)
     = Inr (JDate 2, [Some 1735689600000, Some 1738281600000, Some 1740960000000])
   \<and> calculateNextDueAt utc_env [Some 1735689600000, Some 1738281600000] (JStr ''yearly'') 3 (JDate 0)
     = Inr (JDate 2, [Some 1735689600000, Some 1738281600000, Some 1735689600000])"
proof -
  let ?h = "[Some 1735689600000, Some (1738281600000::int)]"
  have fx: "\<forall>t b. LocalTZA utc_env t b = 0" by (simp add: utc_env_def)
  have d2: "TimeClip (add_local_days utc_env 2 1735689600000) = Some 1735862400000"
    by (simp add: fixed_offset_add_days[OF fx] msPerDay_def TimeClip_def)
  have d7: "TimeClip (add_local_days utc_env (7 * 1) 1735689600000) = Some 1736294400000"
    by (simp add: fixed_offset_add_days[OF fx] msPerDay_def TimeClip_def)
  have m1: "TimeClip (add_local_months utc_env 1 1735689600000) = Some 1738368000000"
    by (simp add: add_local_months_def utc_LocalTime fields_2025_01_01 first_of_month_2025_1
        MakeDate_def msPerDay_def TimeClip_def)
  have m31: "TimeClip (add_local_months utc_env 1 1738281600000) = Some 1740960000000"
    by (simp add: add_local_months_def utc_LocalTime fields_2025_01_31 first_of_month_2025_1
        MakeDate_def msPerDay_def TimeClip_def)
  have h0: "?h ! 0 = Some 1735689600000" and h1: "?h ! 1 = Some 1738281600000"
    by simp_all
  note A = calculateNextDueAt_spec[of utc_env ?h _ 0 "JStr ''yearly''"]
  note B = calculateNextDueAt_spec[of utc_env ?h 1 1 "JStr ''yearly''"]
  have a: "calculateNextDueAt utc_env ?h (JStr ''daily'') 2 (JDate 0)
     = Inr (JDate 2, [Some 1735689600000, Some 1738281600000, Some 1735862400000])"
    using A[of 2] unfolding h0 by (simp add: d2)
  have b: "calculateNextDueAt utc_env ?h (JStr ''weekly'') 1 (JDate 0)
     = Inr (JDate 2, [Some 1735689600000, Some 1738281600000, Some 1736294400000])"
    using A[of 1] unfolding h0 by (simp add: d7[simplified])
  have c: "calculateNextDueAt utc_env ?h (JStr ''monthly'') 1 (JDate 0)
     = Inr (JDate 2, [Some 1735689600000, Some 1738281600000, Some 1738368000000])"
    using A[of 1] unfolding h0 by (simp add: m1)
  have d: "calculateNextDueAt utc_env ?h (JStr ''monthly'') 1 (JDate 1)
     = Inr (JDate 2, [Some 1735689600000, Some 1738281600000, Some 1740960000000])"
    using B unfolding h1 by (simp add: m31)
  have e: "calculateNextDueAt utc_env ?h (JStr ''yearly'') 3 (JDate 0)
     = Inr (JDate 2, [Some 1735689600000, Some 1738281600000, Some 1735689600000])"
    using A[of 3] unfolding h0 by simp
  from a b c d e show ?thesis by blast
qed

subsection \<open>The two next-due-date functions\<close>

text \<open>
  Claim C9 as stated fails. In a zone with daylight saving time, one day after
  2025-03-29 12:00 UTC is 2025-03-30 11:00 UTC for \<^verbatim>\<open>calculateNextDueAt\<close> (the same local
  time on the next local day) and 2025-03-30 12:00 UTC for \<^verbatim>\<open>getDueDateFromNow\<close>
  (24 hours later).
\<close>

theorem next_due_agreement_counterexample:
  "calculateNextDueAt dst_env [Some 1743249600000] (JStr ''daily'') 1 (JDate 0)
     = Inr (JDate 1, [Some 1743249600000, Some 1743332400000])
   \<and> getDueDateFromNow dst_env [Some 1743249600000] (JStr ''days'') 1 (JDate 0)
     = Inr (JDate 1, [Some 1743249600000, Some 1743336000000])"
proof -
  have lt: "LocalTime dst_env 1743249600000 = 1743249600000"
    by (simp add: LocalTime_def dst_env_def)
  have md: "MakeDate (Day 1743249600000 + 1) (TimeWithinDay 1743249600000) = 1743336000000"
    by (simp add: MakeDate_def Day_def TimeWithinDay_def msPerDay_def)
  have utc: "UTC dst_env 1743336000000 = 1743332400000"
    by (simp add: UTC_def dst_env_def)
  have ad: "add_local_days dst_env 1 1743249600000 = 1743332400000"
    by (simp only: add_local_days_def local_day_def lt md utc)
  have dv: "Date_value_default dst_env [Some 1743249600000] (JDate 0) = Inr (Some 1743249600000)"
    by (simp add: Date_value_default_def Date_value_def)
  have a: "calculateNextDueAt dst_env [Some 1743249600000] (JStr ''daily'') 1 (JDate 0)
     = Inr (JDate 1, [Some 1743249600000, Some 1743332400000])"
    by (simp add: calculateNextDueAt_def dv new_Date_def setDate_getDate ad TimeClip_def)
  have b: "getDueDateFromNow dst_env [Some 1743249600000] (JStr ''days'') 1 (JDate 0)
     = Inr (JDate 1, [Some 1743249600000, Some 1743336000000])"
    by (simp add: getDueDateFromNow_days dv new_Date_def TimeClip_def msPerDay_def)
  from a b show ?thesis by blast
qed

text \<open>
  Claim C9, amended. For every integer interval \<open>n\<close> and every start value:
  \<open>months\<close> agrees with \<open>monthly\<close> and \<open>once\<close> with \<open>once\<close> in every time zone; \<open>days\<close>
  agrees with \<open>daily\<close> whenever the zone's offset from UTC at the resulting local time
  (the start's local time moved by \<open>n\<close> days) equals its offset at the start instant, and
  \<open>weeks\<close> with \<open>weekly\<close> likewise for \<open>7 * n\<close> days; in particular both agree in a zone
  whose offset is constant, and on a start that is no valid instant.
\<close>

theorem next_due_agreement:
  "getDueDateFromNow e h (JStr ''months'') n fromDate
     = calculateNextDueAt e h (JStr ''monthly'') n fromDate
   \<and> getDueDateFromNow e h (JStr ''once'') n fromDate
     = calculateNextDueAt e h (JStr ''once'') n fromDate
   \<and> ((\<forall>t. Date_value_default e h fromDate = Inr (Some t) \<longrightarrow>
            LocalTZA e (LocalTime e t + n * msPerDay) False = LocalTZA e t True) \<longrightarrow>
        getDueDateFromNow e h (JStr ''days'') n fromDate
          = calculateNextDueAt e h (JStr ''daily'') n fromDate)
   \<and> ((\<forall>t. Date_value_default e h fromDate = Inr (Some t) \<longrightarrow>
            LocalTZA e (LocalTime e t + n * 7 * msPerDay) False = LocalTZA e t True) \<longrightarrow>
        getDueDateFromNow e h (JStr ''weeks'') n fromDate
          = calculateNextDueAt e h (JStr ''weekly'') n fromDate)
   \<and> ((\<forall>t b. LocalTZA e t b = c) \<longrightarrow>
        getDueDateFromNow e h (JStr ''days'') n fromDate
          = calculateNextDueAt e h (JStr ''daily'') n fromDate
      \<and> getDueDateFromNow e h (JStr ''weeks'') n fromDate
          = calculateNextDueAt e h (JStr ''weekly'') n fromDate)"
proof -
  have months: "getDueDateFromNow e h (JStr ''months'') n fromDate
     = calculateNextDueAt e h (JStr ''monthly'') n fromDate"
    by (simp add: getDueDateFromNow_def calculateNextDueAt_def Let_def split: sum.splits)
  have once: "getDueDateFromNow e h (JStr ''once'') n fromDate
     = calculateNextDueAt e h (JStr ''once'') n fromDate"
    by (simp add: getDueDateFromNow_def calculateNextDueAt_def Let_def split: sum.splits)
  have sd: "setDate e (num_add (getDate e tv) k) tv
              = (case tv of None \<Rightarrow> None | Some t \<Rightarrow> TimeClip (t + k * msPerDay))"
    if "\<forall>t. tv = Some t \<longrightarrow> LocalTZA e (LocalTime e t + k * msPerDay) False = LocalTZA e t True"
    for tv k
    using that
    by (cases tv) (simp_all add: setDate_invalid setDate_getDate add_local_days_offset)
  have days: "getDueDateFromNow e h (JStr ''days'') n fromDate
          = calculateNextDueAt e h (JStr ''daily'') n fromDate"
    if "\<forall>t. Date_value_default e h fromDate = Inr (Some t) \<longrightarrow>
            LocalTZA e (LocalTime e t + n * msPerDay) False = LocalTZA e t True"
  proof (cases "Date_value_default e h fromDate")
    case (Inl err)
    then show ?thesis by (simp add: getDueDateFromNow_days calculateNextDueAt_def)
  next
    case (Inr tv)
    with that have "\<forall>t. tv = Some t \<longrightarrow>
        LocalTZA e (LocalTime e t + n * msPerDay) False = LocalTZA e t True" by simp
    from sd[OF this] Inr show ?thesis
      by (simp add: getDueDateFromNow_days calculateNextDueAt_def)
  qed
  have weeks: "getDueDateFromNow e h (JStr ''weeks'') n fromDate
          = calculateNextDueAt e h (JStr ''weekly'') n fromDate"
    if "\<forall>t. Date_value_default e h fromDate = Inr (Some t) \<longrightarrow>
            LocalTZA e (LocalTime e t + n * 7 * msPerDay) False = LocalTZA e t True"
  proof (cases "Date_value_default e h fromDate")
    case (Inl err)
    then show ?thesis by (simp add: getDueDateFromNow_weeks calculateNextDueAt_def)
  next
    case (Inr tv)
    with that have "\<forall>t. tv = Some t \<longrightarrow>
        LocalTZA e (LocalTime e t + n * 7 * msPerDay) False = LocalTZA e t True" by simp
    from sd[OF this] Inr show ?thesis
      by (simp add: getDueDateFromNow_weeks calculateNextDueAt_def)
  qed
  have fixed: "getDueDateFromNow e h (JStr ''days'') n fromDate
          = calculateNextDueAt e h (JStr ''daily'') n fromDate
      \<and> getDueDateFromNow e h (JStr ''weeks'') n fromDate
          = calculateNextDueAt e h (JStr ''weekly'') n fromDate"
    if "\<forall>t b. LocalTZA e t b = c"
    using days weeks that by simp
  from months once days weeks fixed show ?thesis by blast
qed

theorem next_due_agreement_witness:
  "getDueDateFromNow dst_env [Some 1751328000000] (JStr ''days'') 2 (JDate 0)
     = Inr (JDate 1, [Some 1751328000000, Some 1751500800000])
   \<and> calculateNextDueAt dst_env [Some 1751328000000] (JStr ''daily'') 2 (JDate 0)
     = Inr (JDate 1, [Some 1751328000000, Some 1751500800000])
   \<and> getDueDateFromNow utc_env [Some 1735689600000] (JStr ''weeks'') 1 (JDate 0)
     = calculateNextDueAt utc_env [Some 1735689600000] (JStr ''weekly'') 1 (JDate 0)"
proof -
  have dv: "Date_value_default dst_env [Some 1751328000000] (JDate 0) = Inr (Some 1751328000000)"
    by (simp add: Date_value_default_def Date_value_def)
  have lt: "LocalTime dst_env 1751328000000 = 1751331600000"
    by (simp add: LocalTime_def dst_env_def)
  have off: "\<forall>t. Date_value_default dst_env [Some 1751328000000] (JDate 0) = Inr (Some t) \<longrightarrow>
            LocalTZA dst_env (LocalTime dst_env t + 2 * msPerDay) False = LocalTZA dst_env t True"
    unfolding dv by (simp add: lt msPerDay_def) (simp add: dst_env_def)
  have g: "getDueDateFromNow dst_env [Some 1751328000000] (JStr ''days'') 2 (JDate 0)
     = Inr (JDate 1, [Some 1751328000000, Some 1751500800000])"
    by (simp add: getDueDateFromNow_days dv new_Date_def TimeClip_def msPerDay_def)
  from next_due_agreement[of dst_env "[Some 1751328000000]" 2 "JDate 0" 0] off
  have d: "getDueDateFromNow dst_env [Some 1751328000000] (JStr ''days'') 2 (JDate 0)
          = calculateNextDueAt dst_env [Some 1751328000000] (JStr ''daily'') 2 (JDate 0)"
    by blast
  have fx: "\<forall>t b. LocalTZA utc_env t b = 0" by (simp add: utc_env_def)
  from next_due_agreement[of utc_env "[Some 1735689600000]" 1 "JDate 0" 0] fx
  have w: "getDueDateFromNow utc_env [Some 1735689600000] (JStr ''weeks'') 1 (JDate 0)
     = calculateNextDueAt utc_env [Some 1735689600000] (JStr ''weekly'') 1 (JDate 0)"
    by blast
  from g d w show ?thesis by simp
qed

end
